theory Spec2Isabelle
  imports Complex_Main
begin

section \<open>Python exceptions and small helpers\<close>

text \<open>
  The source is \<^verbatim>\<open>src/idaes/core/util/initialization.py\<close>. Every \<^verbatim>\<open>raise\<close> of the
  source is a value of \<open>exn\<close>; a function that mutates objects and may raise returns the
  pair of its outcome (\<open>Inl\<close> the exception) and the state it leaves behind, because a
  Python exception does not undo the mutations made before it.
\<close>

datatype exn =
    TypeError string
  | ValueError string
  | NotImplementedError string
  | Exception string
  | KeyError
  | IndexError

text \<open>\<^verbatim>\<open>str(n)\<close> of a non-negative integer, for the formatted messages of the source.\<close>

fun str_nat :: "nat \<Rightarrow> string" where
  "str_nat n =
     (if n < 10 then [''0123456789'' ! n]
      else str_nat (n div 10) @ [''0123456789'' ! (n mod 10)])"

declare str_nat.simps [simp del]

text \<open>
  A \<^verbatim>\<open>for\<close> loop whose body may raise: the loop stops at the first exception and keeps
  the state reached so far.
\<close>

fun for_each :: "('a \<Rightarrow> 's \<Rightarrow> (exn + unit) \<times> 's) \<Rightarrow> 'a list \<Rightarrow> 's \<Rightarrow> (exn + unit) \<times> 's" where
  "for_each body [] s = (Inr (), s)"
| "for_each body (x # xs) s =
     (case body x s of
        (Inl e, s') \<Rightarrow> (Inl e, s')
      | (Inr u, s') \<Rightarrow> for_each body xs s')"

text \<open>\<^verbatim>\<open>try: body finally: fin\<close>: \<open>fin\<close> runs on the state \<open>body\<close> leaves, whatever its outcome.\<close>

definition try_finally :: "('s \<Rightarrow> (exn + 'a) \<times> 's) \<Rightarrow> ('s \<Rightarrow> 's) \<Rightarrow> 's \<Rightarrow> (exn + 'a) \<times> 's" where
  "try_finally body fin s = (case body s of (r, s') \<Rightarrow> (r, fin s'))"


section \<open>\<^verbatim>\<open>solve_indexed_blocks\<close> (lines 161--213)\<close>

text \<open>
  An element of \<^verbatim>\<open>blocks\<close> is an object known by its identity and by whether it is an
  instance of \<^verbatim>\<open>Block\<close>. The argument itself is either one (indexed) Block, which line
  177 wraps in a list, or a list of objects.
\<close>

datatype pyobject = BlockObject nat | NonBlockObject nat

datatype blocks_arg = ABlock nat | BlockList "pyobject list"

text \<open>
  The temporary block: the three private tables the source writes. \<^verbatim>\<open>_decl\<close> maps a
  name to a position, \<^verbatim>\<open>_decl_order\<close> lists (object, position of the next one), and
  \<^verbatim>\<open>_ctypes\<close> has at most the entry for the key \<^verbatim>\<open>Block\<close>, a list of three integers.
\<close>

record tmp_block =
  decl :: "string \<rightharpoonup> nat"
  decl_order :: "(pyobject \<times> nat option) list"
  ctypes :: "(int \<times> int \<times> int) option"

definition new_block :: tmp_block where
  "new_block = \<lparr>decl = Map.empty, decl_order = [], ctypes = None\<rparr>"

definition as_block_list :: "blocks_arg \<Rightarrow> pyobject list" where
  "as_block_list blocks = (case blocks of ABlock b \<Rightarrow> [BlockObject b] | BlockList bs \<Rightarrow> bs)"

text \<open>
  One pass of the loop of lines 186--197. The inner \<^verbatim>\<open>try\<close> turns any exception of
  the two table updates into \<^verbatim>\<open>Exception\<close>; \<open>add_raises i\<close> says whether the update at
  position \<open>i\<close> raises.
\<close>

definition add_block :: "(nat \<Rightarrow> bool) \<Rightarrow> nat \<Rightarrow> nat \<times> pyobject \<Rightarrow> tmp_block \<Rightarrow> (exn + unit) \<times> tmp_block" where
  "add_block add_raises nBlocks ib tmp =
     (case ib of (i, b) \<Rightarrow>
        (case b of
           NonBlockObject _ \<Rightarrow>
             (Inl (TypeError ''Trying to apply solve_indexed_blocks to object containing non-Block objects''), tmp)
         | BlockObject _ \<Rightarrow>
             if add_raises i
             then (Inl (Exception ''solve_indexed_blocks method failed adding components to temporary block.''), tmp)
             else (Inr (),
                   tmp\<lparr>decl := (decl tmp)(''block_'' @ str_nat i \<mapsto> i),
                       decl_order := decl_order tmp @
                          [(b, if int i < int nBlocks - 1 then Some (i + 1) else None)]\<rparr>)))"

text \<open>
  The body of the outer \<^verbatim>\<open>try\<close> (lines 181--203). \<open>solve\<close> is the solver's call on the
  temporary block: it returns the results object or raises, and may mutate the block.
\<close>

definition solve_body :: "(tmp_block \<Rightarrow> (exn + 'r) \<times> tmp_block) \<Rightarrow> (nat \<Rightarrow> bool) \<Rightarrow> pyobject list \<Rightarrow> tmp_block \<Rightarrow> (exn + 'r) \<times> tmp_block" where
  "solve_body solve add_raises blocks tmp =
     (let nBlocks = length blocks in
      case for_each (add_block add_raises nBlocks) (zip [0..<nBlocks] blocks) tmp of
        (Inl e, tmp1) \<Rightarrow> (Inl e, tmp1)
      | (Inr u, tmp1) \<Rightarrow>
          solve (tmp1\<lparr>ctypes := Some (0, int nBlocks - 1, int nBlocks)\<rparr>))"

text \<open>The \<^verbatim>\<open>finally\<close> clause (lines 205--210).\<close>

definition clean_up :: "tmp_block \<Rightarrow> tmp_block" where
  "clean_up tmp = tmp\<lparr>decl := Map.empty, decl_order := [], ctypes := None\<rparr>"

text \<open>
  The function returns its outcome together with the final state of the temporary
  block, which in the source is the object \<^verbatim>\<open>tmp\<close> at the moment the function is left.
\<close>

definition solve_indexed_blocks :: "(tmp_block \<Rightarrow> (exn + 'r) \<times> tmp_block) \<Rightarrow> (nat \<Rightarrow> bool) \<Rightarrow> blocks_arg \<Rightarrow> (exn + 'r) \<times> tmp_block" where
  "solve_indexed_blocks solve add_raises blocks =
     try_finally (solve_body solve add_raises (as_block_list blocks)) clean_up new_block"


section \<open>\<^verbatim>\<open>propagate_state\<close> (lines 121--157)\<close>

text \<open>
  Pyomo ports hold references to component objects that live elsewhere in the model, so
  two ports may refer to the same object. The data objects are therefore kept in a heap,
  addressed by identity; a port maps a member's name to a component, and a component
  lists its indices with the address of the data object at each index. Every data object
  has the attributes \<^verbatim>\<open>value\<close> and \<^verbatim>\<open>fixed\<close> the function reads and writes.
\<close>

type_synonym address = nat

record var_data =
  vd_value :: "real option"
  vd_fixed :: bool

type_synonym heap = "address \<Rightarrow> var_data"

datatype component =
    VarComponent "(nat \<times> address) list"
  | OtherComponent "(nat \<times> address) list"

type_synonym port = "(string \<times> component) list"

datatype stream_arg = Arc port port | NotAnArc

definition component_data :: "component \<Rightarrow> (nat \<times> address) list" where
  "component_data c = (case c of VarComponent d \<Rightarrow> d | OtherComponent d \<Rightarrow> d)"

text \<open>
  The body of the inner loop (lines 151--157) for the member \<open>v\<close> of the source, its
  index \<open>i\<close> and the source's data object \<open>a_source\<close> at that index.
\<close>

definition copy_index :: "port \<Rightarrow> string \<Rightarrow> nat \<times> address \<Rightarrow> heap \<Rightarrow> (exn + unit) \<times> heap" where
  "copy_index value_dest v ia h =
     (case ia of (i, a_source) \<Rightarrow>
        (case map_of value_dest v of
           None \<Rightarrow> (Inl KeyError, h)
         | Some (OtherComponent _) \<Rightarrow>
             (Inl (TypeError ''Port contains one or more members which are not Vars. propogate_state works by assigning to the value attribute, thus can only be when Port members are Pyomo Vars.''), h)
         | Some (VarComponent dest_data) \<Rightarrow>
             (case map_of dest_data i of
                None \<Rightarrow> (Inl KeyError, h)
              | Some a_dest \<Rightarrow>
                  (Inr (),
                   if \<not> vd_fixed (h a_dest)
                   then h(a_dest := (h a_dest)\<lparr>vd_value := vd_value (h a_source)\<rparr>)
                   else h))))"

definition copy_port :: "port \<Rightarrow> port \<Rightarrow> heap \<Rightarrow> (exn + unit) \<times> heap" where
  "copy_port value_source value_dest =
     for_each (\<lambda>vc. for_each (copy_index value_dest (fst vc)) (component_data (snd vc))) value_source"

definition propagate_state :: "stream_arg \<Rightarrow> string \<Rightarrow> heap \<Rightarrow> (exn + unit) \<times> heap" where
  "propagate_state stream direction h =
     (case stream of
        NotAnArc \<Rightarrow>
          (Inl (TypeError ''Unexpected type of stream argument. Value must be a Pyomo Arc.''), h)
      | Arc source destination \<Rightarrow>
          if direction = ''forward'' then copy_port source destination h
          else if direction = ''backward'' then copy_port destination source h
          else (Inl (ValueError (''Unexpected value for direction argument: ('' @ direction @
                  ''). Value must be either 'forward' or 'backward'.'')), h))"

text \<open>The data objects a port refers to.\<close>

definition port_addresses :: "port \<Rightarrow> address set" where
  "port_addresses p = set (concat (map (\<lambda>vc. map snd (component_data (snd vc))) p))"


section \<open>The model graph of the sequential initializer\<close>

text \<open>
  A component data object (a \<^verbatim>\<open>ConstraintData\<close> or a \<^verbatim>\<open>VarData\<close>) is identified by
  the name of its component together with its indices other than time, and by its time
  index if it has one. The identity plays the part of \<^verbatim>\<open>id(comp)\<close> in the source.
  \<open>deriv_vars\<close> lists each time derivative with the state variable that
  \<^verbatim>\<open>get_state_var()\<close> returns for it. A flowsheet holds constraints, with their
  \<^verbatim>\<open>active\<close> flags, and variables, with their \<^verbatim>\<open>value\<close> (\<open>None\<close> when unset) and
  their \<^verbatim>\<open>fixed\<close> flags; the four definitions after the record are the methods
  \<^verbatim>\<open>activate()\<close>, \<^verbatim>\<open>deactivate()\<close>, \<^verbatim>\<open>fix()\<close> and \<^verbatim>\<open>unfix()\<close>.
\<close>

type_synonym 't comp = "string \<times> 't option"

record 't flowsheet =
  con_ids :: "'t comp list"
  con_active :: "'t comp \<Rightarrow> bool"
  var_ids :: "'t comp list"
  var_value :: "'t comp \<Rightarrow> real option"
  var_fixed :: "'t comp \<Rightarrow> bool"
  deriv_vars :: "(string \<times> string) list"

definition activate :: "'t comp \<Rightarrow> 't flowsheet \<Rightarrow> 't flowsheet" where
  "activate c fs = fs\<lparr>con_active := (con_active fs)(c := True)\<rparr>"

definition deactivate :: "'t comp \<Rightarrow> 't flowsheet \<Rightarrow> 't flowsheet" where
  "deactivate c fs = fs\<lparr>con_active := (con_active fs)(c := False)\<rparr>"

definition fix_var :: "'t comp \<Rightarrow> 't flowsheet \<Rightarrow> 't flowsheet" where
  "fix_var v fs = fs\<lparr>var_fixed := (var_fixed fs)(v := True)\<rparr>"

definition unfix_var :: "'t comp \<Rightarrow> 't flowsheet \<Rightarrow> 't flowsheet" where
  "unfix_var v fs = fs\<lparr>var_fixed := (var_fixed fs)(v := False)\<rparr>"

text \<open>
  The time domain: its ordered points and the dictionary of
  \<^verbatim>\<open>get_discretization_info()\<close>, which is empty (\<open>None\<close>) before discretization and has
  the key \<^verbatim>\<open>ncp\<close> only for collocation schemes. The counts \<^verbatim>\<open>nfe\<close> and \<^verbatim>\<open>ncp\<close> are
  natural numbers.
\<close>

record disc_info =
  di_scheme :: string
  di_nfe :: nat
  di_ncp :: "nat option"

record 't continuous_set =
  points :: "'t list"
  discretization_info :: "disc_info option"

text \<open>
  The two positional arguments as Python objects: \<open>FlowsheetBlock\<close> is a reference to
  the flowsheet whose state is threaded through the run.
\<close>

datatype 't argument = FlowsheetBlock | ContinuousSet "'t continuous_set" | OtherObject

text \<open>\<^verbatim>\<open>time.first()\<close> and the 1-based \<^verbatim>\<open>time[k]\<close> of an ordered set.\<close>

definition time_first :: "'t list \<Rightarrow> exn + 't" where
  "time_first ps = (case ps of [] \<Rightarrow> Inl IndexError | t # _ \<Rightarrow> Inr t)"

definition time_at :: "'t list \<Rightarrow> nat \<Rightarrow> exn + 't" where
  "time_at ps k = (if 1 \<le> k \<and> k \<le> length ps then Inr (ps ! (k - 1)) else Inl IndexError)"

text \<open>The comprehension \<^verbatim>\<open>[time[k] for k in ks]\<close>.\<close>

fun time_points :: "'t list \<Rightarrow> nat list \<Rightarrow> exn + 't list" where
  "time_points ps [] = Inr []"
| "time_points ps (k # ks) =
     (case time_at ps k of
        Inl e \<Rightarrow> Inl e
      | Inr t \<Rightarrow> (case time_points ps ks of Inl e \<Rightarrow> Inl e | Inr ts \<Rightarrow> Inr (t # ts)))"


section \<open>Collaborators from \<^verbatim>\<open>idaes.core.util.dyn_utils\<close>\<close>

text \<open>
  Modelled from the spec: \<^verbatim>\<open>get_activity_dict\<close> (\<open>snapshotActivity\<close>, section 4.3) is not
  among the source files. It records active or inactive for every constraint,
  independent of time indexing.
\<close>

definition get_activity_dict :: "'t flowsheet \<Rightarrow> ('t comp \<rightharpoonup> bool)" where
  "get_activity_dict fs = (\<lambda>c. if c \<in> set (con_ids fs) then Some (con_active fs c) else None)"

definition constraints_at :: "'t flowsheet \<Rightarrow> 't \<Rightarrow> 't comp list" where
  "constraints_at fs t = filter (\<lambda>c. snd c = Some t) (con_ids fs)"

text \<open>
  Modelled from the spec: \<^verbatim>\<open>deactivate_model_at\<close> (\<open>deactivateExceptAt\<close>, section 4.3) is
  not among the source files. It deactivates every time-indexed constraint at each of
  the given points and returns the mapping from each point to the list of components
  deactivated there; components not indexed by time are untouched.
\<close>

definition deactivate_model_at :: "'t flowsheet \<Rightarrow> 't list \<Rightarrow> ('t \<rightharpoonup> 't comp list) \<times> 't flowsheet" where
  "deactivate_model_at fs pts =
     ((\<lambda>t. if t \<in> set pts then Some (constraints_at fs t) else None),
      fold deactivate (concat (map (constraints_at fs) pts)) fs)"

text \<open>
  Modelled from the spec: \<^verbatim>\<open>deactivate_constraints_unindexed_by\<close> (\<open>deactivateUnindexed\<close>,
  section 4.3) is not among the source files. It deactivates all constraints not indexed
  by time and returns the list that is restored at the end of the run: the constraints
  whose state it changed.
\<close>

definition deactivate_constraints_unindexed_by :: "'t flowsheet \<Rightarrow> 't comp list \<times> 't flowsheet" where
  "deactivate_constraints_unindexed_by fs =
     (let conlist = filter (\<lambda>c. snd c = None \<and> con_active fs c) (con_ids fs)
      in (conlist, fold deactivate conlist fs))"

text \<open>
  Modelled from the spec: \<^verbatim>\<open>fix_vars_unindexed_by\<close> (\<open>fixUnindexed\<close>, section 4.3) is not
  among the source files. It fixes all variables not indexed by time and returns the
  list that is restored at the end of the run: the variables whose state it changed.
\<close>

definition fix_vars_unindexed_by :: "'t flowsheet \<Rightarrow> 't comp list \<times> 't flowsheet" where
  "fix_vars_unindexed_by fs =
     (let varlist = filter (\<lambda>v. snd v = None \<and> \<not> var_fixed fs v) (var_ids fs)
      in (varlist, fold fix_var varlist fs))"

text \<open>
  Modelled from the spec: \<^verbatim>\<open>get_derivatives_at\<close> (\<open>pairingsAt\<close>, section 4.4) is not
  among the source files. At a point it returns every derivative variable defined there;
  \<open>state_vars_at\<close> is the comprehension of lines 325--327, the state variable of each
  derivative at the same point and index.
\<close>

definition get_derivatives_at :: "'t flowsheet \<Rightarrow> 't \<Rightarrow> 't comp list" where
  "get_derivatives_at fs t = map (\<lambda>ds. (fst ds, Some t)) (deriv_vars fs)"

definition state_vars_at :: "'t flowsheet \<Rightarrow> 't \<Rightarrow> 't comp list" where
  "state_vars_at fs t = map (\<lambda>ds. (snd ds, Some t)) (deriv_vars fs)"

text \<open>
  Modelled from the spec: \<^verbatim>\<open>copy_values_at_time\<close> (\<open>copyValues\<close>, section 4.5) is not
  among the source files. For every variable instance indexed at the source point it
  copies the value into the corresponding instance at the target point, skipping a
  target instance that is fixed unless \<open>copy_fixed\<close>.
\<close>

definition copy_value :: "'t \<Rightarrow> 't \<Rightarrow> bool \<Rightarrow> 't comp \<Rightarrow> 't flowsheet \<Rightarrow> 't flowsheet" where
  "copy_value t_target t_source copy_fixed v fs =
     (let target = (fst v, Some t_target) in
      if snd v = Some t_source \<and> target \<in> set (var_ids fs) \<and> (copy_fixed \<or> \<not> var_fixed fs target)
      then fs\<lparr>var_value := (var_value fs)(target := var_value fs v)\<rparr>
      else fs)"

definition copy_values_at_time :: "'t flowsheet \<Rightarrow> 't \<Rightarrow> 't \<Rightarrow> bool \<Rightarrow> 't flowsheet" where
  "copy_values_at_time fs t_target t_source copy_fixed =
     fold (copy_value t_target t_source copy_fixed) (var_ids fs) fs"


section \<open>\<^verbatim>\<open>initialize_by_time_element\<close> (lines 215--416)\<close>

text \<open>
  The state of a run: the flowsheet, the messages sent to \<^verbatim>\<open>init_log\<close>, and a record
  of every call of \<^verbatim>\<open>solver.solve\<close> (the stage of the call and the flowsheet as the
  solver received it). The last is not a variable of the source; it makes "the solver
  was not called" a statement about the result.
\<close>

datatype stage = ConsistentIC | Element nat

datatype log_entry = LogInfo string | LogError string

record 't world =
  model :: "'t flowsheet"
  solves :: "(stage \<times> 't flowsheet) list"
  init_log :: "log_entry list"

definition log_info :: "string \<Rightarrow> 't world \<Rightarrow> 't world" where
  "log_info msg w = w\<lparr>init_log := init_log w @ [LogInfo msg]\<rparr>"

definition log_error :: "string \<Rightarrow> 't world \<Rightarrow> 't world" where
  "log_error msg w = w\<lparr>init_log := init_log w @ [LogError msg]\<rparr>"

text \<open>
  The two external collaborators are parameters. \<^verbatim>\<open>degrees_of_freedom\<close> is a function
  of the flowsheet. \<^verbatim>\<open>solver.solve\<close> returns its termination condition and the values it
  loads into the variables; it changes no \<^verbatim>\<open>active\<close> or \<^verbatim>\<open>fixed\<close> flag.
\<close>

datatype termination_condition = optimal | infeasible | maxIterations | other_condition

type_synonym 't dof_fun = "'t flowsheet \<Rightarrow> int"

type_synonym 't solver = "'t flowsheet \<Rightarrow> termination_condition \<times> ('t comp \<Rightarrow> real option)"

text \<open>Lines 245--262: the number of collocation points per element, or the rejection.\<close>

definition scheme_ncp :: "disc_info \<Rightarrow> exn + nat" where
  "scheme_ncp info =
     (if di_scheme info = ''LAGRANGE-RADAU'' then
        (case di_ncp info of None \<Rightarrow> Inl KeyError | Some n \<Rightarrow> Inr n)
      else if di_scheme info = ''LAGRANGE-LEGENDRE'' then
        Inl (NotImplementedError ''Initialization does not support collocation with Legendre roots'')
      else if di_scheme info = ''BACKWARD Difference'' then Inr 1
      else if di_scheme info = ''FORWARD Difference'' then
        Inl (NotImplementedError ''Forward initialization (explicit Euler) has not yet been implemented'')
      else if di_scheme info = ''CENTRAL Difference'' then
        Inl (NotImplementedError ''Initialization does not support central finite difference'')
      else Inl (ValueError ''Unrecognized discretization scheme. ''))"

text \<open>Lines 233--262: the argument checks; on success the points, \<open>nfe\<close> and \<open>ncp\<close>.\<close>

definition check_arguments :: "'t argument \<Rightarrow> 't argument \<Rightarrow> exn + ('t list \<times> nat \<times> nat)" where
  "check_arguments fs time =
     (case fs of
        FlowsheetBlock \<Rightarrow>
          (case time of
             ContinuousSet cs \<Rightarrow>
               (case discretization_info cs of
                  None \<Rightarrow> Inl (ValueError ''ContinuousSet must be discretized'')
                | Some info \<Rightarrow>
                    (case scheme_ncp info of
                       Inl e \<Rightarrow> Inl e
                     | Inr ncp \<Rightarrow> Inr (points cs, di_nfe info, ncp)))
           | FlowsheetBlock \<Rightarrow> Inl (TypeError ''Second arg must be a ContinuousSet'')
           | OtherObject \<Rightarrow> Inl (TypeError ''Second arg must be a ContinuousSet''))
      | ContinuousSet cs \<Rightarrow> Inl (TypeError ''First arg must be a FlowsheetBlock'')
      | OtherObject \<Rightarrow> Inl (TypeError ''First arg must be a FlowsheetBlock''))"

text \<open>The four exceptions raised at the degrees-of-freedom checks and after the solves.\<close>

definition initial_dof_error :: exn where
  "initial_dof_error = ValueError ''Nonzero degrees of freedom.''"

definition element_dof_error :: exn where
  "element_dof_error = ValueError ''Nonzero degrees of freedom''"

definition initial_solve_error :: exn where
  "initial_solve_error = ValueError ''Solver failed in initialization''"

definition element_solve_error :: exn where
  "element_solve_error = ValueError ''Failure in initialization solve''"

definition dof_message :: string where
  "dof_message = ''Model has nonzero degrees of freedom. This was unexpected. Use keyword arg igore_dof=True to skip this check.''"

text \<open>The local variables that live from the preparation to the end of the run.\<close>

record 't locals =
  was_originally_active :: "'t comp \<rightharpoonup> bool"
  deactivated :: "'t \<rightharpoonup> 't comp list"
  con_unindexed_by_time :: "'t comp list"
  var_unindexed_by_time :: "'t comp list"

text \<open>One call of \<^verbatim>\<open>solver.solve(fs)\<close> at a stage: the call is recorded, the values loaded.\<close>

definition call_solver :: "'t solver \<Rightarrow> stage \<Rightarrow> 't world \<Rightarrow> termination_condition \<times> 't world" where
  "call_solver solver st w =
     (case solver (model w) of
        (tc, vals) \<Rightarrow>
          (tc, w\<lparr>model := (model w)\<lparr>var_value := vals\<rparr>,
                 solves := solves w @ [(st, model w)]\<rparr>))"

text \<open>
  Lines 274--311: the first degrees-of-freedom check, the snapshot, the deactivation
  away from the first point, the solve for consistent initial conditions, and the
  deactivation of what is left.
\<close>

definition solve_initial_conditions :: "'t solver \<Rightarrow> 't dof_fun \<Rightarrow> bool \<Rightarrow> 't list \<Rightarrow> 't world \<Rightarrow> (exn + 't locals) \<times> 't world" where
  "solve_initial_conditions solver dof ignore_dof time w =
     (if \<not> ignore_dof \<and> dof (model w) \<noteq> 0 then
        (Inl initial_dof_error, log_error dof_message w)
      else
        let was = get_activity_dict (model w) in
        case time_first time of
          Inl e \<Rightarrow> (Inl e, w)
        | Inr t0 \<Rightarrow>
            (case deactivate_model_at (model w) (remove1 t0 time) of
               (deact, m1) \<Rightarrow>
                 let w1 = log_info ''Model is inactive except at t=0. Solving for consistent initial conditions.'' (w\<lparr>model := m1\<rparr>) in
                 (case call_solver solver ConsistentIC w1 of
                    (tc, w2) \<Rightarrow>
                      if tc \<noteq> optimal then
                        (Inl initial_solve_error,
                         log_error ''Failed to solve for consistent initial conditions'' w2)
                      else
                        let w3 = log_info ''Successfully solved for consistent initial conditions'' w2 in
                        (case deactivate_model_at (model w3) [t0] of
                           (deact0, m4) \<Rightarrow>
                             (case deact0 t0 of
                                None \<Rightarrow> (Inl KeyError, w3\<lparr>model := m4\<rparr>)
                              | Some comps0 \<Rightarrow>
                                  (case deactivate_constraints_unindexed_by m4 of
                                     (conlist, m5) \<Rightarrow>
                                       (case fix_vars_unindexed_by m5 of
                                          (varlist, m6) \<Rightarrow>
                                            (Inr \<lparr>was_originally_active = was,
                                                  deactivated = deact(t0 \<mapsto> comps0),
                                                  con_unindexed_by_time = conlist,
                                                  var_unindexed_by_time = varlist\<rparr>,
                                             log_info ''Flowsheet has been deactivated. Beginning element-wise initialization''
                                               (w3\<lparr>model := m6\<rparr>)))))))))"

text \<open>Lines 332--334: the initial point of element \<open>i\<close> and its other points.\<close>

definition element_points :: "'t list \<Rightarrow> nat \<Rightarrow> nat \<Rightarrow> exn + ('t \<times> 't list)" where
  "element_points time ncp i =
     (case time_at time ((i - 1) * ncp + 1) of
        Inl e \<Rightarrow> Inl e
      | Inr t_prev \<Rightarrow>
          (case time_points time [(i - 1) * ncp + 2 ..< i * ncp + 2] of
             Inl e \<Rightarrow> Inl e
           | Inr fe \<Rightarrow> Inr (t_prev, fe)))"

text \<open>
  Lines 340--343 and 405--408: at each given point, activate the recorded components
  that the snapshot marks as originally active.
\<close>

definition activate_if_originally_active :: "('t comp \<rightharpoonup> bool) \<Rightarrow> 't comp \<Rightarrow> 't flowsheet \<Rightarrow> (exn + unit) \<times> 't flowsheet" where
  "activate_if_originally_active was c fs =
     (case was c of
        None \<Rightarrow> (Inl KeyError, fs)
      | Some b \<Rightarrow> (Inr (), if b then activate c fs else fs))"

definition reactivate_at :: "('t \<rightharpoonup> 't comp list) \<Rightarrow> ('t comp \<rightharpoonup> bool) \<Rightarrow> 't list \<Rightarrow> 't flowsheet \<Rightarrow> (exn + unit) \<times> 't flowsheet" where
  "reactivate_at deact was =
     for_each (\<lambda>t fs. case deact t of
                         None \<Rightarrow> (Inl KeyError, fs)
                       | Some comps \<Rightarrow> for_each (activate_if_originally_active was) comps fs)"

text \<open>Lines 389--391: deactivate every recorded component at each given point.\<close>

definition deactivate_at :: "('t \<rightharpoonup> 't comp list) \<Rightarrow> 't list \<Rightarrow> 't flowsheet \<Rightarrow> (exn + unit) \<times> 't flowsheet" where
  "deactivate_at deact =
     for_each (\<lambda>t fs. case deact t of
                         None \<Rightarrow> (Inl KeyError, fs)
                       | Some comps \<Rightarrow> (Inr (), fold deactivate comps fs))"

text \<open>
  Lines 350--363. The first loop records and fixes the derivatives. The second loop
  records and fixes the state variables, and its test reads \<^verbatim>\<open>drv\<close>, the variable of the
  first loop, which after that loop is bound to the last derivative of the list. The two
  lists have the same length (lines 325--327), so \<^verbatim>\<open>drv\<close> is bound whenever the body of
  the second loop runs.
\<close>

definition record_and_fix_deriv :: "'t comp \<Rightarrow> ('t comp \<rightharpoonup> bool) \<times> 't flowsheet \<Rightarrow> ('t comp \<rightharpoonup> bool) \<times> 't flowsheet" where
  "record_and_fix_deriv drv s =
     (case s of (was_fixed, fs) \<Rightarrow>
        (was_fixed(drv \<mapsto> var_fixed fs drv),
         if var_value fs drv \<noteq> None then fix_var drv fs else fs))"

definition record_and_fix_dvar :: "'t comp \<Rightarrow> 't comp \<Rightarrow> ('t comp \<rightharpoonup> bool) \<times> 't flowsheet \<Rightarrow> ('t comp \<rightharpoonup> bool) \<times> 't flowsheet" where
  "record_and_fix_dvar drv dv s =
     (case s of (was_fixed, fs) \<Rightarrow>
        (was_fixed(dv \<mapsto> var_fixed fs dv),
         if var_value fs drv \<noteq> None then fix_var dv fs else fs))"

definition fix_initial_conditions :: "'t comp list \<Rightarrow> 't comp list \<Rightarrow> 't flowsheet \<Rightarrow> ('t comp \<rightharpoonup> bool) \<times> 't flowsheet" where
  "fix_initial_conditions init_deriv_list init_dvar_list fs =
     fold (record_and_fix_dvar (last init_deriv_list)) init_dvar_list
       (fold record_and_fix_deriv init_deriv_list (Map.empty, fs))"

text \<open>Lines 394--399: unfix each listed variable that the record says was not fixed.\<close>

definition unfix_if_not_originally_fixed :: "('t comp \<rightharpoonup> bool) \<Rightarrow> 't comp \<Rightarrow> 't flowsheet \<Rightarrow> (exn + unit) \<times> 't flowsheet" where
  "unfix_if_not_originally_fixed was_fixed v fs =
     (case was_fixed v of
        None \<Rightarrow> (Inl KeyError, fs)
      | Some b \<Rightarrow> (Inr (), if \<not> b then unfix_var v fs else fs))"

definition unfix_initial_conditions :: "('t comp \<rightharpoonup> bool) \<Rightarrow> 't comp list \<Rightarrow> 't comp list \<Rightarrow> 't flowsheet \<Rightarrow> (exn + unit) \<times> 't flowsheet" where
  "unfix_initial_conditions was_fixed init_deriv_list init_dvar_list fs =
     (case for_each (unfix_if_not_originally_fixed was_fixed) init_deriv_list fs of
        (Inl e, fs1) \<Rightarrow> (Inl e, fs1)
      | (Inr u, fs1) \<Rightarrow> for_each (unfix_if_not_originally_fixed was_fixed) init_dvar_list fs1)"

text \<open>Lines 366--368: seed the points of the element from its initial point.\<close>

definition seed_element :: "'t \<Rightarrow> 't list \<Rightarrow> 't flowsheet \<Rightarrow> 't flowsheet" where
  "seed_element t_prev fe fs = fold (\<lambda>t m. copy_values_at_time m t t_prev False) fe fs"

text \<open>The formatted messages of the loop (lines 336, 371, 383, 385 and 402).\<close>

definition entering_message :: "nat \<Rightarrow> nat \<Rightarrow> string" where
  "entering_message i nfe = ''Entering step '' @ str_nat i @ ''/'' @ str_nat nfe @ '' of initialization''"

definition solving_message :: "nat \<Rightarrow> string" where
  "solving_message i = ''Solving finite element '' @ str_nat i"

definition solved_message :: "nat \<Rightarrow> string" where
  "solved_message i = ''Successfully solved finite element '' @ str_nat i"

definition failed_message :: "nat \<Rightarrow> string" where
  "failed_message i = ''Failed to solve finite element '' @ str_nat i"

definition complete_message :: "nat \<Rightarrow> string" where
  "complete_message i = ''Initialization step '' @ str_nat i @ '' complete''"

text \<open>Lines 373--386: the degrees-of-freedom check and the solve of element \<open>i\<close>.\<close>

definition solve_element :: "'t solver \<Rightarrow> 't dof_fun \<Rightarrow> bool \<Rightarrow> nat \<Rightarrow> 't world \<Rightarrow> (exn + unit) \<times> 't world" where
  "solve_element solver dof ignore_dof i w =
     (if \<not> ignore_dof \<and> dof (model w) \<noteq> 0 then
        (Inl element_dof_error, log_error dof_message w)
      else
        case call_solver solver (Element i) w of
          (tc, w1) \<Rightarrow>
            if tc \<noteq> optimal then
              (Inl element_solve_error,
               log_error (failed_message i) w1)
            else (Inr (), log_info (solved_message i) w1))"

text \<open>
  Lines 340--363 and 366--371 of one pass: what is done to the flowsheet between the
  entry of the pass and the degrees-of-freedom check, with the record of the
  \<^verbatim>\<open>fixed\<close> flags.
\<close>

definition prepare_element :: "'t locals \<Rightarrow> 't \<Rightarrow> 't list \<Rightarrow> 't flowsheet \<Rightarrow> (exn + ('t comp \<rightharpoonup> bool)) \<times> 't flowsheet" where
  "prepare_element loc t_prev fe fs =
     (case reactivate_at (deactivated loc) (was_originally_active loc) fe fs of
        (Inl e, m1) \<Rightarrow> (Inl e, m1)
      | (Inr u, m1) \<Rightarrow>
          (case fix_initial_conditions (get_derivatives_at m1 t_prev) (state_vars_at m1 t_prev) m1 of
             (was_fixed, m2) \<Rightarrow> (Inr was_fixed, seed_element t_prev fe m2)))"

text \<open>Lines 389--399 of one pass: back to the inactive baseline, and the unfixing.\<close>

definition release_element :: "'t locals \<Rightarrow> ('t comp \<rightharpoonup> bool) \<Rightarrow> 't \<Rightarrow> 't list \<Rightarrow> 't flowsheet \<Rightarrow> (exn + unit) \<times> 't flowsheet" where
  "release_element loc was_fixed t_prev fe fs =
     (case deactivate_at (deactivated loc) fe fs of
        (Inl e, m1) \<Rightarrow> (Inl e, m1)
      | (Inr u, m1) \<Rightarrow>
          unfix_initial_conditions was_fixed (get_derivatives_at m1 t_prev) (state_vars_at m1 t_prev) m1)"

text \<open>Lines 331--402: the pass of the loop for element \<open>i\<close>.\<close>

definition element_step :: "'t solver \<Rightarrow> 't dof_fun \<Rightarrow> bool \<Rightarrow> 't list \<Rightarrow> nat \<Rightarrow> nat \<Rightarrow> 't locals \<Rightarrow> nat \<Rightarrow> 't world \<Rightarrow> (exn + unit) \<times> 't world" where
  "element_step solver dof ignore_dof time ncp nfe loc i w =
     (case element_points time ncp i of
        Inl e \<Rightarrow> (Inl e, w)
      | Inr (t_prev, fe) \<Rightarrow>
          let w1 = log_info (entering_message i nfe) w in
          (case prepare_element loc t_prev fe (model w1) of
             (Inl e, m2) \<Rightarrow> (Inl e, w1\<lparr>model := m2\<rparr>)
           | (Inr was_fixed, m2) \<Rightarrow>
               let w2 = log_info (solving_message i) (w1\<lparr>model := m2\<rparr>) in
               (case solve_element solver dof ignore_dof i w2 of
                  (Inl e, w3) \<Rightarrow> (Inl e, w3)
                | (Inr u, w3) \<Rightarrow>
                    (case release_element loc was_fixed t_prev fe (model w3) of
                       (Inl e, m4) \<Rightarrow> (Inl e, w3\<lparr>model := m4\<rparr>)
                     | (Inr u, m4) \<Rightarrow>
                         (Inr (), log_info (complete_message i)
                                    (w3\<lparr>model := m4\<rparr>))))))"

text \<open>Lines 404--416: reactivation of the model after the loop.\<close>

definition restore_model :: "'t list \<Rightarrow> 't locals \<Rightarrow> 't world \<Rightarrow> (exn + unit) \<times> 't world" where
  "restore_model time loc w =
     (case reactivate_at (deactivated loc) (was_originally_active loc) time (model w) of
        (Inl e, m1) \<Rightarrow> (Inl e, w\<lparr>model := m1\<rparr>)
      | (Inr u, m1) \<Rightarrow>
          (Inr (), log_info ''Initialization completed. Model has been reactivated''
                     (w\<lparr>model := fold unfix_var (var_unindexed_by_time loc)
                                   (fold activate (con_unindexed_by_time loc) m1)\<rparr>)))"

text \<open>
  The whole function. \<open>m\<close> is the state of the flowsheet on entry; the keyword arguments
  \<^verbatim>\<open>solver\<close> and \<^verbatim>\<open>ignore_dof\<close> are parameters.
\<close>

definition initialize_by_time_element :: "'t solver \<Rightarrow> 't dof_fun \<Rightarrow> bool \<Rightarrow> 't argument \<Rightarrow> 't argument \<Rightarrow> 't flowsheet \<Rightarrow> (exn + unit) \<times> 't world" where
  "initialize_by_time_element solver dof ignore_dof fs time m =
     (let w = \<lparr>model = m, solves = [], init_log = []\<rparr> in
      case check_arguments fs time of
        Inl e \<Rightarrow> (Inl e, w)
      | Inr (pts, nfe, ncp) \<Rightarrow>
          (case solve_initial_conditions solver dof ignore_dof pts w of
             (Inl e, w1) \<Rightarrow> (Inl e, w1)
           | (Inr loc, w1) \<Rightarrow>
               (case for_each (element_step solver dof ignore_dof pts ncp nfe loc) [1..<nfe + 1] w1 of
                  (Inl e, w2) \<Rightarrow> (Inl e, w2)
                | (Inr u, w2) \<Rightarrow> restore_model pts loc w2)))"


section \<open>Concrete inputs\<close>

text \<open>
  A flowsheet over the time points 0, 1, 2, discretized by backward differences into
  two finite elements. The constraint \<open>c\<close> is indexed by time and active everywhere,
  \<open>d\<close> is indexed by time and inactive at point 1; \<open>g\<close> (active) and \<open>h\<close> (inactive) are
  not indexed by time. The state \<open>x\<close> has the derivative \<open>dxdt\<close>; \<open>p\<close> (unfixed) and
  \<open>q\<close> (fixed) are not indexed by time. Every variable has the value 1.
\<close>

definition example_time :: "nat continuous_set" where
  "example_time =
     \<lparr>points = [0, 1, 2],
      discretization_info = Some \<lparr>di_scheme = ''BACKWARD Difference'', di_nfe = 2, di_ncp = None\<rparr>\<rparr>"

definition example_flowsheet :: "nat flowsheet" where
  "example_flowsheet =
     \<lparr>con_ids = [(''c'', Some 0), (''c'', Some 1), (''c'', Some 2), (''d'', Some 1),
                 (''g'', None), (''h'', None)],
      con_active = (\<lambda>c. c \<noteq> (''d'', Some 1) \<and> c \<noteq> (''h'', None)),
      var_ids = [(''x'', Some 0), (''x'', Some 1), (''x'', Some 2),
                 (''dxdt'', Some 0), (''dxdt'', Some 1), (''dxdt'', Some 2),
                 (''p'', None), (''q'', None)],
      var_value = (\<lambda>v. Some 1),
      var_fixed = (\<lambda>v. v = (''q'', None)),
      deriv_vars = [(''dxdt'', ''x'')]\<rparr>"

text \<open>
  A solver that always terminates optimally and leaves the values as they are, and one
  that does not terminate optimally once the constraint \<open>c\<close> is active at point \<open>k\<close>,
  that is, in the solve of the element that owns point \<open>k\<close>.
\<close>

definition example_solver :: "nat solver" where
  "example_solver m = (optimal, var_value m)"

definition failing_solver :: "nat \<Rightarrow> nat solver" where
  "failing_solver k m = (if con_active m (''c'', Some k) then infeasible else optimal, var_value m)"

text \<open>
  The same flowsheet where the state \<open>x\<close> has no value at point 0 while its derivative
  has one.
\<close>

definition unsolved_state_flowsheet :: "nat flowsheet" where
  "unsolved_state_flowsheet =
     example_flowsheet\<lparr>var_value := (\<lambda>v. if v = (''x'', Some 0) then None else Some 1)\<rparr>"

text \<open>
  A flowsheet over six time points, five backward-difference elements, with one
  constraint \<open>c\<close> and one state \<open>x\<close> with derivative \<open>dxdt\<close> at every point.
\<close>

definition long_time :: "nat continuous_set" where
  "long_time =
     \<lparr>points = [0, 1, 2, 3, 4, 5],
      discretization_info = Some \<lparr>di_scheme = ''BACKWARD Difference'', di_nfe = 5, di_ncp = None\<rparr>\<rparr>"

definition long_flowsheet :: "nat flowsheet" where
  "long_flowsheet =
     \<lparr>con_ids = map (\<lambda>t. (''c'', Some t)) [0, 1, 2, 3, 4, 5],
      con_active = (\<lambda>c. True),
      var_ids = map (\<lambda>t. (''x'', Some t)) [0, 1, 2, 3, 4, 5] @
                map (\<lambda>t. (''dxdt'', Some t)) [0, 1, 2, 3, 4, 5],
      var_value = (\<lambda>v. Some 1),
      var_fixed = (\<lambda>v. False),
      deriv_vars = [(''dxdt'', ''x'')]\<rparr>"

text \<open>
  Local variables for one pass over the example flowsheet: the snapshot of its
  constraints, and at every point the constraints indexed there.
\<close>

definition example_locals :: "nat locals" where
  "example_locals =
     \<lparr>was_originally_active = get_activity_dict example_flowsheet,
      deactivated = (\<lambda>t. Some (constraints_at example_flowsheet t)),
      con_unindexed_by_time = [],
      var_unindexed_by_time = []\<rparr>"

definition example_world :: "nat world" where
  "example_world = \<lparr>model = example_flowsheet, solves = [], init_log = []\<rparr>"

text \<open>
  The example flowsheet where the state \<open>x\<close> also has the second derivative \<open>d2xdt2\<close>
  with respect to time. \<^verbatim>\<open>get_state_var()\<close> of both derivatives is \<open>x\<close>, so the list of
  state variables at a point names the same \<open>x\<close> twice. The constraints are those of the
  example flowsheet, and its local variables serve for a pass over this one.
\<close>

definition second_order_flowsheet :: "nat flowsheet" where
  "second_order_flowsheet =
     example_flowsheet\<lparr>
       var_ids := var_ids example_flowsheet @
                  [(''d2xdt2'', Some 0), (''d2xdt2'', Some 1), (''d2xdt2'', Some 2)],
       deriv_vars := [(''dxdt'', ''x''), (''d2xdt2'', ''x'')]\<rparr>"

definition second_order_world :: "nat world" where
  "second_order_world = \<lparr>model = second_order_flowsheet, solves = [], init_log = []\<rparr>"

text \<open>A time set discretized by collocation at Legendre roots.\<close>

definition legendre_time :: "nat continuous_set" where
  "legendre_time =
     \<lparr>points = [0, 1, 2],
      discretization_info = Some \<lparr>di_scheme = ''LAGRANGE-LEGENDRE'', di_nfe = 1, di_ncp = Some 2\<rparr>\<rparr>"

text \<open>
  Two ports over four separate variables, the destination's temperature fixed; and two
  ports that share their two variables crosswise: the member \<open>a\<close> of each is the member
  \<open>b\<close> of the other.
\<close>

definition inlet_port :: port where
  "inlet_port = [(''flow'', VarComponent [(0, 3)]), (''temperature'', VarComponent [(0, 4)])]"

definition outlet_port :: port where
  "outlet_port = [(''flow'', VarComponent [(0, 1)]), (''temperature'', VarComponent [(0, 2)])]"

definition example_heap :: heap where
  "example_heap a = \<lparr>vd_value = Some (real a), vd_fixed = (a = 4)\<rparr>"

definition crossed_source :: port where
  "crossed_source = [(''a'', VarComponent [(0, 1)]), (''b'', VarComponent [(0, 2)])]"

definition crossed_destination :: port where
  "crossed_destination = [(''a'', VarComponent [(0, 2)]), (''b'', VarComponent [(0, 1)])]"

definition unfixed_heap :: heap where
  "unfixed_heap a = \<lparr>vd_value = Some (real a), vd_fixed = False\<rparr>"

text \<open>
  The local variables after the preparation of the example flowsheet: \<open>g\<close> is the one
  active constraint not indexed by time, \<open>p\<close> the one unfixed variable not indexed by
  time.
\<close>

definition prepared_locals :: "nat locals" where
  "prepared_locals =
     \<lparr>was_originally_active = get_activity_dict example_flowsheet,
      deactivated = (\<lambda>t. if t \<in> set [0, 1, 2] then Some (constraints_at example_flowsheet t) else None),
      con_unindexed_by_time = [(''g'', None)],
      var_unindexed_by_time = [(''p'', None)]\<rparr>"


section \<open>Properties\<close>

subsection \<open>Loops and the fields they touch\<close>

lemma for_each_invariant:
  assumes "for_each body xs s = (r, s')" and "I s"
    and "\<And>x t r' t'. x \<in> set xs \<Longrightarrow> I t \<Longrightarrow> body x t = (r', t') \<Longrightarrow> I t'"
  shows "I s'"
  using assms
proof (induction xs arbitrary: s)
  case Nil
  then show ?case by simp
next
  case (Cons x xs)
  obtain r1 s1 where b: "body x s = (r1, s1)" by (cases "body x s")
  have I1: "I s1" using Cons.prems(2,3) b by auto
  show ?case
  proof (cases r1)
    case (Inl e)
    with b Cons.prems(1) have "s' = s1" by simp
    with I1 show ?thesis by simp
  next
    case (Inr u)
    with b Cons.prems(1) have "for_each body xs s1 = (r, s')" by simp
    then show ?thesis using I1 Cons.prems(3) by (intro Cons.IH) auto
  qed
qed

lemma fold_deactivate:
  "fold deactivate cs fs = fs\<lparr>con_active := (\<lambda>c. c \<notin> set cs \<and> con_active fs c)\<rparr>"
  by (induction cs arbitrary: fs) (auto simp: deactivate_def fun_eq_iff)

lemma fold_activate:
  "fold activate cs fs = fs\<lparr>con_active := (\<lambda>c. c \<in> set cs \<or> con_active fs c)\<rparr>"
  by (induction cs arbitrary: fs) (auto simp: activate_def fun_eq_iff)

lemma fold_fix_var:
  "fold fix_var vs fs = fs\<lparr>var_fixed := (\<lambda>v. v \<in> set vs \<or> var_fixed fs v)\<rparr>"
  by (induction vs arbitrary: fs) (auto simp: fix_var_def fun_eq_iff)

lemma fold_unfix_var:
  "fold unfix_var vs fs = fs\<lparr>var_fixed := (\<lambda>v. v \<notin> set vs \<and> var_fixed fs v)\<rparr>"
  by (induction vs arbitrary: fs) (auto simp: unfix_var_def fun_eq_iff)

lemma fold_copy_value:
  "\<exists>vals. fold (copy_value tt ts cf) vs fs = fs\<lparr>var_value := vals\<rparr>"
proof (induction vs arbitrary: fs)
  case Nil
  have "fs = fs\<lparr>var_value := var_value fs\<rparr>" by simp
  then show ?case by (metis fold_simps(1))
next
  case (Cons v vs)
  obtain a where a: "copy_value tt ts cf v fs = fs\<lparr>var_value := a\<rparr>"
    by (cases "snd v = Some ts \<and> (fst v, Some tt) \<in> set (var_ids fs) \<and> (cf \<or> \<not> var_fixed fs (fst v, Some tt))")
       (auto simp: copy_value_def Let_def intro: that[of "var_value fs"])
  from Cons.IH[of "fs\<lparr>var_value := a\<rparr>"] obtain b where
    "fold (copy_value tt ts cf) vs (fs\<lparr>var_value := a\<rparr>) = fs\<lparr>var_value := a, var_value := b\<rparr>" by blast
  then show ?case using a by auto
qed

lemma copy_values_at_time_frame:
  "\<exists>vals. copy_values_at_time fs tt ts cf = fs\<lparr>var_value := vals\<rparr>"
  unfolding copy_values_at_time_def by (rule fold_copy_value)

lemma seed_element_frame:
  "\<exists>vals. seed_element t_prev fe fs = fs\<lparr>var_value := vals\<rparr>"
  unfolding seed_element_def
proof (induction fe arbitrary: fs)
  case Nil
  have "fs = fs\<lparr>var_value := var_value fs\<rparr>" by simp
  then show ?case by (metis fold_simps(1))
next
  case (Cons t fe)
  obtain a where a: "copy_values_at_time fs t t_prev False = fs\<lparr>var_value := a\<rparr>"
    using copy_values_at_time_frame[of fs t t_prev False] by auto
  from Cons.IH[of "fs\<lparr>var_value := a\<rparr>"] obtain b where
    "fold (\<lambda>t m. copy_values_at_time m t t_prev False) fe (fs\<lparr>var_value := a\<rparr>) = fs\<lparr>var_value := a, var_value := b\<rparr>" by blast
  then show ?case using a by auto
qed

lemma activate_each_frame:
  assumes "for_each (activate_if_originally_active was) cs fs = (r, fs')"
  shows "\<exists>A. fs' = fs\<lparr>con_active := A\<rparr> \<and> (\<forall>c. c \<notin> set cs \<longrightarrow> A c = con_active fs c)"
proof (rule for_each_invariant[OF assms])
  show "\<exists>A. fs = fs\<lparr>con_active := A\<rparr> \<and> (\<forall>c. c \<notin> set cs \<longrightarrow> A c = con_active fs c)"
    by (rule exI[of _ "con_active fs"]) simp
next
  fix x t r' t'
  assume "x \<in> set cs"
    and "\<exists>A. t = fs\<lparr>con_active := A\<rparr> \<and> (\<forall>c. c \<notin> set cs \<longrightarrow> A c = con_active fs c)"
    and "activate_if_originally_active was x t = (r', t')"
  then show "\<exists>A. t' = fs\<lparr>con_active := A\<rparr> \<and> (\<forall>c. c \<notin> set cs \<longrightarrow> A c = con_active fs c)"
    by (auto simp: activate_if_originally_active_def activate_def split: option.splits if_splits)
qed

lemma activate_each_done:
  "for_each (activate_if_originally_active was) cs fs = (Inr u, fs') \<Longrightarrow>
   fs' = fs\<lparr>con_active := (\<lambda>c. con_active fs c \<or> (c \<in> set cs \<and> was c = Some True))\<rparr>"
proof (induction cs arbitrary: fs)
  case Nil
  then show ?case by simp
next
  case (Cons c cs)
  from Cons.prems obtain b where b: "was c = Some b"
    by (auto simp: activate_if_originally_active_def split: option.splits)
  let ?fs1 = "if b then activate c fs else fs"
  have step: "activate_if_originally_active was c fs = (Inr (), ?fs1)"
    using b by (simp add: activate_if_originally_active_def)
  from Cons.prems step have "for_each (activate_if_originally_active was) cs ?fs1 = (Inr u, fs')"
    by simp
  from Cons.IH[OF this]
  have "fs' = ?fs1\<lparr>con_active := (\<lambda>a. con_active ?fs1 a \<or> (a \<in> set cs \<and> was a = Some True))\<rparr>" .
  moreover have "(\<lambda>a. con_active ?fs1 a \<or> (a \<in> set cs \<and> was a = Some True)) =
                 (\<lambda>a. con_active fs a \<or> (a \<in> set (c # cs) \<and> was a = Some True))"
    using b by (intro ext) (auto simp: activate_def)
  ultimately show ?case by (simp add: activate_def)
qed

lemma reactivate_at_frame:
  assumes "reactivate_at deact was ts fs = (r, fs')"
  shows "\<exists>A. fs' = fs\<lparr>con_active := A\<rparr> \<and>
           (\<forall>c. (\<forall>t cs. t \<in> set ts \<and> deact t = Some cs \<longrightarrow> c \<notin> set cs) \<longrightarrow> A c = con_active fs c)"
    (is "?I fs'")
proof (rule for_each_invariant[OF assms[unfolded reactivate_at_def]])
  show "?I fs" by (rule exI[of _ "con_active fs"]) simp
next
  fix x t r' t'
  assume x: "x \<in> set ts" and I: "?I t"
    and step: "(case deact x of None \<Rightarrow> (Inl KeyError, t)
                | Some comps \<Rightarrow> for_each (activate_if_originally_active was) comps t) = (r', t')"
  show "?I t'"
  proof (cases "deact x")
    case None
    with step I show ?thesis by simp
  next
    case (Some comps)
    with step have "for_each (activate_if_originally_active was) comps t = (r', t')" by simp
    from activate_each_frame[OF this] obtain A where
      A: "t' = t\<lparr>con_active := A\<rparr>" "\<forall>c. c \<notin> set comps \<longrightarrow> A c = con_active t c" by blast
    from I obtain B where
      B: "t = fs\<lparr>con_active := B\<rparr>"
         "\<forall>c. (\<forall>t cs. t \<in> set ts \<and> deact t = Some cs \<longrightarrow> c \<notin> set cs) \<longrightarrow> B c = con_active fs c" by blast
    have "t' = fs\<lparr>con_active := A\<rparr>" using A(1) B(1) by simp
    moreover have "\<forall>c. (\<forall>t cs. t \<in> set ts \<and> deact t = Some cs \<longrightarrow> c \<notin> set cs) \<longrightarrow> A c = con_active fs c"
      using A(2) B x Some by auto
    ultimately show ?thesis by blast
  qed
qed

lemma reactivate_at_done:
  "reactivate_at deact was ts fs = (Inr u, fs') \<Longrightarrow>
   fs' = fs\<lparr>con_active := (\<lambda>c. con_active fs c \<or>
            (\<exists>t cs. t \<in> set ts \<and> deact t = Some cs \<and> c \<in> set cs \<and> was c = Some True))\<rparr>"
proof (induction ts arbitrary: fs)
  case Nil
  then show ?case by (simp add: reactivate_at_def)
next
  case (Cons t ts)
  from Cons.prems obtain comps where comps: "deact t = Some comps"
    by (auto simp: reactivate_at_def split: option.splits)
  obtain r1 fs1 where s1: "for_each (activate_if_originally_active was) comps fs = (r1, fs1)"
    by (cases "for_each (activate_if_originally_active was) comps fs")
  with Cons.prems comps have r1: "r1 = Inr ()" and rest: "reactivate_at deact was ts fs1 = (Inr u, fs')"
    by (auto simp: reactivate_at_def split: sum.splits)
  from activate_each_done[OF s1[unfolded r1]]
  have fs1: "fs1 = fs\<lparr>con_active := (\<lambda>c. con_active fs c \<or> (c \<in> set comps \<and> was c = Some True))\<rparr>" .
  from Cons.IH[OF rest]
  have "fs' = fs1\<lparr>con_active := (\<lambda>c. con_active fs1 c \<or>
            (\<exists>t cs. t \<in> set ts \<and> deact t = Some cs \<and> c \<in> set cs \<and> was c = Some True))\<rparr>" .
  moreover have "(\<lambda>c. con_active fs1 c \<or>
            (\<exists>t cs. t \<in> set ts \<and> deact t = Some cs \<and> c \<in> set cs \<and> was c = Some True)) =
     (\<lambda>c. con_active fs c \<or>
            (\<exists>t' cs. t' \<in> set (t # ts) \<and> deact t' = Some cs \<and> c \<in> set cs \<and> was c = Some True))"
    using comps by (intro ext) (auto simp: fs1)
  ultimately show ?case by (simp add: fs1)
qed

lemma deactivate_at_frame:
  assumes "deactivate_at deact ts fs = (r, fs')"
  shows "\<exists>A. fs' = fs\<lparr>con_active := A\<rparr> \<and>
           (\<forall>c. (\<forall>t cs. t \<in> set ts \<and> deact t = Some cs \<longrightarrow> c \<notin> set cs) \<longrightarrow> A c = con_active fs c)"
    (is "?I fs'")
proof (rule for_each_invariant[OF assms[unfolded deactivate_at_def]])
  show "?I fs" by (rule exI[of _ "con_active fs"]) simp
next
  fix x t r' t'
  assume x: "x \<in> set ts" and I: "?I t"
    and step: "(case deact x of None \<Rightarrow> (Inl KeyError, t)
                | Some comps \<Rightarrow> (Inr (), fold deactivate comps t)) = (r', t')"
  show "?I t'"
  proof (cases "deact x")
    case None
    with step I show ?thesis by simp
  next
    case (Some comps)
    with step have t': "t' = t\<lparr>con_active := (\<lambda>c. c \<notin> set comps \<and> con_active t c)\<rparr>"
      by (simp add: fold_deactivate)
    from I obtain B where
      B: "t = fs\<lparr>con_active := B\<rparr>"
         "\<forall>c. (\<forall>t cs. t \<in> set ts \<and> deact t = Some cs \<longrightarrow> c \<notin> set cs) \<longrightarrow> B c = con_active fs c" by blast
    have "t' = fs\<lparr>con_active := (\<lambda>c. c \<notin> set comps \<and> B c)\<rparr>" using t' B(1) by simp
    moreover have "\<forall>c. (\<forall>t cs. t \<in> set ts \<and> deact t = Some cs \<longrightarrow> c \<notin> set cs) \<longrightarrow>
        (c \<notin> set comps \<and> B c) = con_active fs c"
      using B x Some by auto
    ultimately show ?thesis by blast
  qed
qed

lemma deactivate_at_done:
  "deactivate_at deact ts fs = (Inr u, fs') \<Longrightarrow>
   fs' = fs\<lparr>con_active := (\<lambda>c. con_active fs c \<and>
            \<not> (\<exists>t cs. t \<in> set ts \<and> deact t = Some cs \<and> c \<in> set cs))\<rparr>"
proof (induction ts arbitrary: fs)
  case Nil
  then show ?case by (simp add: deactivate_at_def)
next
  case (Cons t ts)
  from Cons.prems obtain comps where comps: "deact t = Some comps"
    by (auto simp: deactivate_at_def split: option.splits)
  with Cons.prems have rest: "deactivate_at deact ts (fold deactivate comps fs) = (Inr u, fs')"
    by (auto simp: deactivate_at_def)
  let ?fs1 = "fold deactivate comps fs"
  from Cons.IH[OF rest]
  have "fs' = ?fs1\<lparr>con_active := (\<lambda>c. con_active ?fs1 c \<and>
            \<not> (\<exists>t cs. t \<in> set ts \<and> deact t = Some cs \<and> c \<in> set cs))\<rparr>" .
  moreover have "(\<lambda>c. con_active ?fs1 c \<and>
            \<not> (\<exists>t cs. t \<in> set ts \<and> deact t = Some cs \<and> c \<in> set cs)) =
     (\<lambda>c. con_active fs c \<and>
            \<not> (\<exists>t' cs. t' \<in> set (t # ts) \<and> deact t' = Some cs \<and> c \<in> set cs))"
    using comps by (intro ext) (auto simp: fold_deactivate)
  ultimately show ?case by (simp add: fold_deactivate)
qed

lemma deactivate_model_at_eq:
  "deactivate_model_at fs pts =
     ((\<lambda>t. if t \<in> set pts then Some (constraints_at fs t) else None),
      fs\<lparr>con_active := (\<lambda>c. con_active fs c \<and>
            \<not> (c \<in> set (con_ids fs) \<and> (\<exists>t. t \<in> set pts \<and> snd c = Some t)))\<rparr>)"
proof -
  have "(\<lambda>c. c \<notin> set (concat (map (constraints_at fs) pts)) \<and> con_active fs c) =
        (\<lambda>c. con_active fs c \<and> \<not> (c \<in> set (con_ids fs) \<and> (\<exists>t. t \<in> set pts \<and> snd c = Some t)))"
    by (intro ext) (auto simp: constraints_at_def)
  then show ?thesis
    by (simp add: deactivate_model_at_def fold_deactivate)
qed

lemma deactivate_constraints_unindexed_by_eq:
  "deactivate_constraints_unindexed_by fs =
     (filter (\<lambda>c. snd c = None \<and> con_active fs c) (con_ids fs),
      fs\<lparr>con_active := (\<lambda>c. con_active fs c \<and> \<not> (c \<in> set (con_ids fs) \<and> snd c = None))\<rparr>)"
proof -
  have "(\<lambda>c. c \<notin> set (filter (\<lambda>c. snd c = None \<and> con_active fs c) (con_ids fs)) \<and> con_active fs c) =
        (\<lambda>c. con_active fs c \<and> \<not> (c \<in> set (con_ids fs) \<and> snd c = None))"
    by (intro ext) auto
  then show ?thesis
    by (simp add: deactivate_constraints_unindexed_by_def fold_deactivate Let_def)
qed

lemma fix_vars_unindexed_by_eq:
  "fix_vars_unindexed_by fs =
     (filter (\<lambda>v. snd v = None \<and> \<not> var_fixed fs v) (var_ids fs),
      fs\<lparr>var_fixed := (\<lambda>v. var_fixed fs v \<or> (v \<in> set (var_ids fs) \<and> snd v = None))\<rparr>)"
proof -
  have "(\<lambda>v. v \<in> set (filter (\<lambda>v. snd v = None \<and> \<not> var_fixed fs v) (var_ids fs)) \<or> var_fixed fs v) =
        (\<lambda>v. var_fixed fs v \<or> (v \<in> set (var_ids fs) \<and> snd v = None))"
    by (intro ext) auto
  then show ?thesis
    by (simp add: fix_vars_unindexed_by_def fold_fix_var Let_def)
qed

lemma constraints_at_update [simp]:
  "constraints_at (fs\<lparr>con_active := A\<rparr>) t = constraints_at fs t"
  "constraints_at (fs\<lparr>var_value := V\<rparr>) t = constraints_at fs t"
  "constraints_at (fs\<lparr>var_fixed := F\<rparr>) t = constraints_at fs t"
  by (simp_all add: constraints_at_def)

text \<open>The flowsheet and the local variables after a successful preparation.\<close>

lemma solve_initial_conditions_done:
  assumes "solve_initial_conditions solver dof ignore_dof time w = (Inr loc, w1)"
  shows "was_originally_active loc = get_activity_dict (model w)"
    and "deactivated loc t = (if t \<in> set time then Some (constraints_at (model w) t) else None)"
    and "con_unindexed_by_time loc = filter (\<lambda>c. snd c = None \<and> con_active (model w) c) (con_ids (model w))"
    and "var_unindexed_by_time loc = filter (\<lambda>v. snd v = None \<and> \<not> var_fixed (model w) v) (var_ids (model w))"
    and "con_active (model w1) c = (con_active (model w) c \<and>
            \<not> (c \<in> set (con_ids (model w)) \<and> (snd c = None \<or> (\<exists>t. t \<in> set time \<and> snd c = Some t))))"
    and "var_fixed (model w1) v = (var_fixed (model w) v \<or> (v \<in> set (var_ids (model w)) \<and> snd v = None))"
    and "con_ids (model w1) = con_ids (model w)"
    and "var_ids (model w1) = var_ids (model w)"
    and "deriv_vars (model w1) = deriv_vars (model w)"
    and "\<exists>m1. solves w1 = solves w @ [(ConsistentIC, m1)] \<and> fst (solver m1) = optimal"
    and "ignore_dof \<or> dof (model w) = 0"
proof -
  let ?m = "model w"
  from assms show dof: "ignore_dof \<or> dof ?m = 0"
    by (auto simp: solve_initial_conditions_def split: if_splits)
  from assms dof obtain t0 rest where time: "time = t0 # rest"
    by (cases time) (auto simp: solve_initial_conditions_def time_first_def Let_def)
  let ?m1 = "?m\<lparr>con_active := (\<lambda>c. con_active ?m c \<and>
            \<not> (c \<in> set (con_ids ?m) \<and> (\<exists>t. t \<in> set rest \<and> snd c = Some t)))\<rparr>"
  obtain tc vals where sol: "solver ?m1 = (tc, vals)" by (cases "solver ?m1")
  have tc: "tc = optimal"
    using assms dof time sol
    by (auto simp: solve_initial_conditions_def time_first_def Let_def deactivate_model_at_eq
        call_solver_def log_info_def split: if_splits)
  have C: "filter (\<lambda>c. snd c = None \<and> con_active ?m c \<and>
                 (c \<in> set (con_ids ?m) \<longrightarrow> (\<forall>t. t \<in> set rest \<longrightarrow> snd c \<noteq> Some t)) \<and>
                 (c \<in> set (con_ids ?m) \<longrightarrow> snd c \<noteq> Some t0)) (con_ids ?m) =
           filter (\<lambda>c. snd c = None \<and> con_active ?m c) (con_ids ?m)"
    by (rule filter_cong) auto
  have eqs: "loc = \<lparr>was_originally_active = get_activity_dict ?m,
         deactivated = (\<lambda>t. if t \<in> set rest then Some (constraints_at ?m t) else None)
           (t0 \<mapsto> constraints_at ?m t0),
         con_unindexed_by_time = filter (\<lambda>c. snd c = None \<and> con_active ?m c) (con_ids ?m),
         var_unindexed_by_time = filter (\<lambda>v. snd v = None \<and> \<not> var_fixed ?m v) (var_ids ?m)\<rparr>"
     "w1 = w\<lparr>solves := solves w @ [(ConsistentIC, ?m1)],
          model := ?m
            \<lparr>var_value := vals,
               con_active := \<lambda>c. con_active ?m c \<and>
                     (c \<in> set (con_ids ?m) \<longrightarrow> (\<forall>t. t \<in> set rest \<longrightarrow> snd c \<noteq> Some t)) \<and>
                     (c \<in> set (con_ids ?m) \<longrightarrow> snd c \<noteq> Some t0) \<and>
                     (c \<in> set (con_ids ?m) \<longrightarrow> (\<exists>y. snd c = Some y)),
               var_fixed := \<lambda>v. var_fixed ?m v \<or> v \<in> set (var_ids ?m) \<and> snd v = None\<rparr>,
          init_log := init_log w @
            [LogInfo ''Model is inactive except at t=0. Solving for consistent initial conditions.'',
             LogInfo ''Successfully solved for consistent initial conditions'',
             LogInfo ''Flowsheet has been deactivated. Beginning element-wise initialization'']\<rparr>"
    using assms dof time sol tc C
    by (auto simp add: solve_initial_conditions_def time_first_def Let_def deactivate_model_at_eq
        call_solver_def log_info_def deactivate_constraints_unindexed_by_eq fix_vars_unindexed_by_eq
        split: if_splits)
  show "was_originally_active loc = get_activity_dict ?m" by (simp add: eqs)
  show "deactivated loc t = (if t \<in> set time then Some (constraints_at ?m t) else None)"
    by (simp add: eqs time)
  show "con_unindexed_by_time loc = filter (\<lambda>c. snd c = None \<and> con_active ?m c) (con_ids ?m)"
    by (simp add: eqs)
  show "var_unindexed_by_time loc = filter (\<lambda>v. snd v = None \<and> \<not> var_fixed ?m v) (var_ids ?m)"
    by (simp add: eqs)
  show "con_active (model w1) c = (con_active ?m c \<and>
            \<not> (c \<in> set (con_ids ?m) \<and> (snd c = None \<or> (\<exists>t. t \<in> set time \<and> snd c = Some t))))"
    by (auto simp: eqs time)
  show "var_fixed (model w1) v = (var_fixed ?m v \<or> (v \<in> set (var_ids ?m) \<and> snd v = None))"
    by (simp add: eqs)
  show "con_ids (model w1) = con_ids ?m" "var_ids (model w1) = var_ids ?m"
    "deriv_vars (model w1) = deriv_vars ?m"
    by (simp_all add: eqs)
  show "\<exists>m1. solves w1 = solves w @ [(ConsistentIC, m1)] \<and> fst (solver m1) = optimal"
    using sol tc by (auto simp: eqs)
qed

lemma fold_invariant:
  assumes "I s" and "\<And>x t. x \<in> set xs \<Longrightarrow> I t \<Longrightarrow> I (f x t)"
  shows "I (fold f xs s)"
  using assms by (induction xs arbitrary: s) auto

text \<open>
  What the recording and fixing loops keep true of the record and the flowsheet: only
  \<^verbatim>\<open>fixed\<close> flags of listed variables change, no flag is cleared, and a variable
  recorded as fixed is fixed.
\<close>

lemma record_and_fix_invariant:
  assumes "\<And>x s. x \<in> set xs \<Longrightarrow> \<exists>b. f x s = ((fst s)(x \<mapsto> var_fixed (snd s) x), if b then fix_var x (snd s) else snd s)"
    and "\<exists>F. fs1 = fs\<lparr>var_fixed := F\<rparr> \<and> (\<forall>v. var_fixed fs v \<longrightarrow> F v) \<and>
             (\<forall>v. v \<notin> S \<longrightarrow> F v = var_fixed fs v) \<and> (\<forall>v. was1 v = Some True \<longrightarrow> F v)"
    and "set xs \<subseteq> S"
  shows "\<exists>F. snd (fold f xs (was1, fs1)) = fs\<lparr>var_fixed := F\<rparr> \<and> (\<forall>v. var_fixed fs v \<longrightarrow> F v) \<and>
             (\<forall>v. v \<notin> S \<longrightarrow> F v = var_fixed fs v) \<and>
             (\<forall>v. fst (fold f xs (was1, fs1)) v = Some True \<longrightarrow> F v)"
proof -
  let ?I = "\<lambda>s. \<exists>F. snd s = fs\<lparr>var_fixed := F\<rparr> \<and> (\<forall>v. var_fixed fs v \<longrightarrow> F v) \<and>
             (\<forall>v. v \<notin> S \<longrightarrow> F v = var_fixed fs v) \<and> (\<forall>v. fst s v = Some True \<longrightarrow> F v)"
  have "?I (fold f xs (was1, fs1))"
  proof (rule fold_invariant)
    show "?I (was1, fs1)" using assms(2) by simp
  next
    fix x t
    assume x: "x \<in> set xs" and I: "?I t"
    from I obtain F where F: "snd t = fs\<lparr>var_fixed := F\<rparr>" "\<forall>v. var_fixed fs v \<longrightarrow> F v"
      "\<forall>v. v \<notin> S \<longrightarrow> F v = var_fixed fs v" "\<forall>v. fst t v = Some True \<longrightarrow> F v" by blast
    from assms(1)[OF x, of t] obtain b where
      b: "f x t = ((fst t)(x \<mapsto> var_fixed (snd t) x), if b then fix_var x (snd t) else snd t)" by blast
    have xS: "x \<in> S" using x assms(3) by auto
    show "?I (f x t)"
    proof (cases b)
      case True
      have "snd (f x t) = fs\<lparr>var_fixed := F(x := True)\<rparr>"
        using b True F(1) by (simp add: fix_var_def)
      moreover have "\<forall>v. fst (f x t) v = Some True \<longrightarrow> (F(x := True)) v"
        using b F(4) by auto
      ultimately show ?thesis using F(2,3) xS
        by (intro exI[of _ "F(x := True)"]) auto
    next
      case False
      have "snd (f x t) = fs\<lparr>var_fixed := F\<rparr>"
        using b False F(1) by simp
      moreover have "\<forall>v. fst (f x t) v = Some True \<longrightarrow> F v"
        using b F(1,4) by auto
      ultimately show ?thesis using F(2,3)
        by (intro exI[of _ F]) auto
    qed
  qed
  then show ?thesis .
qed

lemma record_and_fix_dom:
  assumes "\<And>x s. x \<in> set xs \<Longrightarrow> fst (f x s) = (fst s)(x \<mapsto> var_fixed (snd s) x)"
  shows "dom (fst (fold f xs s)) = dom (fst s) \<union> set xs"
  using assms by (induction xs arbitrary: s) auto

lemma fix_initial_conditions_frame:
  assumes "fix_initial_conditions derivs dvars fs = (was_fixed, fs')"
  shows "\<exists>F. fs' = fs\<lparr>var_fixed := F\<rparr> \<and> (\<forall>v. var_fixed fs v \<longrightarrow> F v) \<and>
             (\<forall>v. v \<notin> set derivs \<union> set dvars \<longrightarrow> F v = var_fixed fs v) \<and>
             (\<forall>v. was_fixed v = Some True \<longrightarrow> F v)"
    and "dom was_fixed = set derivs \<union> set dvars"
proof -
  let ?S = "set derivs \<union> set dvars"
  obtain was1 fs1 where s1: "fold record_and_fix_deriv derivs (Map.empty, fs) = (was1, fs1)"
    by (cases "fold record_and_fix_deriv derivs (Map.empty, fs)")
  have "\<exists>F. snd (fold record_and_fix_deriv derivs (Map.empty, fs)) = fs\<lparr>var_fixed := F\<rparr> \<and>
          (\<forall>v. var_fixed fs v \<longrightarrow> F v) \<and> (\<forall>v. v \<notin> ?S \<longrightarrow> F v = var_fixed fs v) \<and>
          (\<forall>v. fst (fold record_and_fix_deriv derivs (Map.empty, fs)) v = Some True \<longrightarrow> F v)"
  proof (rule record_and_fix_invariant)
    show "\<exists>F. fs = fs\<lparr>var_fixed := F\<rparr> \<and> (\<forall>v. var_fixed fs v \<longrightarrow> F v) \<and>
             (\<forall>v. v \<notin> ?S \<longrightarrow> F v = var_fixed fs v) \<and> (\<forall>v. Map.empty v = Some True \<longrightarrow> F v)"
      by (rule exI[of _ "var_fixed fs"]) simp
  qed (auto simp: record_and_fix_deriv_def split: prod.splits)
  then have one: "\<exists>F. fs1 = fs\<lparr>var_fixed := F\<rparr> \<and> (\<forall>v. var_fixed fs v \<longrightarrow> F v) \<and>
          (\<forall>v. v \<notin> ?S \<longrightarrow> F v = var_fixed fs v) \<and> (\<forall>v. was1 v = Some True \<longrightarrow> F v)"
    by (simp add: s1)
  have two: "fold (record_and_fix_dvar (last derivs)) dvars (was1, fs1) = (was_fixed, fs')"
    using assms s1 by (simp add: fix_initial_conditions_def)
  have "\<exists>F. snd (fold (record_and_fix_dvar (last derivs)) dvars (was1, fs1)) = fs\<lparr>var_fixed := F\<rparr> \<and>
          (\<forall>v. var_fixed fs v \<longrightarrow> F v) \<and> (\<forall>v. v \<notin> ?S \<longrightarrow> F v = var_fixed fs v) \<and>
          (\<forall>v. fst (fold (record_and_fix_dvar (last derivs)) dvars (was1, fs1)) v = Some True \<longrightarrow> F v)"
    by (rule record_and_fix_invariant[OF _ one]) (auto simp: record_and_fix_dvar_def split: prod.splits)
  then show "\<exists>F. fs' = fs\<lparr>var_fixed := F\<rparr> \<and> (\<forall>v. var_fixed fs v \<longrightarrow> F v) \<and>
             (\<forall>v. v \<notin> ?S \<longrightarrow> F v = var_fixed fs v) \<and> (\<forall>v. was_fixed v = Some True \<longrightarrow> F v)"
    by (simp add: two)
  have "dom was1 = set derivs"
    using record_and_fix_dom[of derivs record_and_fix_deriv "(Map.empty, fs)"] s1
    by (simp add: record_and_fix_deriv_def split: prod.splits)
  moreover have "dom was_fixed = dom was1 \<union> set dvars"
    using record_and_fix_dom[of dvars "record_and_fix_dvar (last derivs)" "(was1, fs1)"] two
    by (simp add: record_and_fix_dvar_def split: prod.splits)
  ultimately show "dom was_fixed = ?S" by simp
qed

lemma unfix_each_frame:
  assumes "for_each (unfix_if_not_originally_fixed was_fixed) vs fs = (r, fs')"
  shows "\<exists>F. fs' = fs\<lparr>var_fixed := F\<rparr> \<and> (\<forall>v. v \<notin> set vs \<longrightarrow> F v = var_fixed fs v)"
proof (rule for_each_invariant[OF assms])
  show "\<exists>F. fs = fs\<lparr>var_fixed := F\<rparr> \<and> (\<forall>v. v \<notin> set vs \<longrightarrow> F v = var_fixed fs v)"
    by (rule exI[of _ "var_fixed fs"]) simp
next
  fix x t r' t'
  assume "x \<in> set vs"
    and "\<exists>F. t = fs\<lparr>var_fixed := F\<rparr> \<and> (\<forall>v. v \<notin> set vs \<longrightarrow> F v = var_fixed fs v)"
    and "unfix_if_not_originally_fixed was_fixed x t = (r', t')"
  then show "\<exists>F. t' = fs\<lparr>var_fixed := F\<rparr> \<and> (\<forall>v. v \<notin> set vs \<longrightarrow> F v = var_fixed fs v)"
    by (auto simp: unfix_if_not_originally_fixed_def unfix_var_def split: option.splits if_splits)
qed

lemma unfix_each_done:
  "for_each (unfix_if_not_originally_fixed was_fixed) vs fs = (Inr u, fs') \<Longrightarrow>
   fs' = fs\<lparr>var_fixed := (\<lambda>v. var_fixed fs v \<and> \<not> (v \<in> set vs \<and> was_fixed v = Some False))\<rparr>"
proof (induction vs arbitrary: fs)
  case Nil
  then show ?case by simp
next
  case (Cons x vs)
  from Cons.prems obtain b where b: "was_fixed x = Some b"
    by (auto simp: unfix_if_not_originally_fixed_def split: option.splits)
  let ?fs1 = "if \<not> b then unfix_var x fs else fs"
  have step: "unfix_if_not_originally_fixed was_fixed x fs = (Inr (), ?fs1)"
    using b by (simp add: unfix_if_not_originally_fixed_def)
  from Cons.prems step have "for_each (unfix_if_not_originally_fixed was_fixed) vs ?fs1 = (Inr u, fs')"
    by simp
  from Cons.IH[OF this]
  have "fs' = ?fs1\<lparr>var_fixed := (\<lambda>v. var_fixed ?fs1 v \<and> \<not> (v \<in> set vs \<and> was_fixed v = Some False))\<rparr>" .
  moreover have "(\<lambda>v. var_fixed ?fs1 v \<and> \<not> (v \<in> set vs \<and> was_fixed v = Some False)) =
                 (\<lambda>v. var_fixed fs v \<and> \<not> (v \<in> set (x # vs) \<and> was_fixed v = Some False))"
    using b by (intro ext) (auto simp: unfix_var_def)
  ultimately show ?case by (simp add: unfix_var_def)
qed

lemma unfix_initial_conditions_frame:
  assumes "unfix_initial_conditions was_fixed derivs dvars fs = (r, fs')"
  shows "\<exists>F. fs' = fs\<lparr>var_fixed := F\<rparr> \<and>
           (\<forall>v. v \<notin> set derivs \<union> set dvars \<longrightarrow> F v = var_fixed fs v)"
proof -
  obtain r1 fs1 where s1: "for_each (unfix_if_not_originally_fixed was_fixed) derivs fs = (r1, fs1)"
    by (cases "for_each (unfix_if_not_originally_fixed was_fixed) derivs fs")
  from unfix_each_frame[OF s1] obtain F1 where
    F1: "fs1 = fs\<lparr>var_fixed := F1\<rparr>" "\<forall>v. v \<notin> set derivs \<longrightarrow> F1 v = var_fixed fs v" by blast
  show ?thesis
  proof (cases r1)
    case (Inl e)
    with assms s1 have "fs' = fs1" by (simp add: unfix_initial_conditions_def)
    with F1 show ?thesis by auto
  next
    case (Inr u)
    with assms s1 have "for_each (unfix_if_not_originally_fixed was_fixed) dvars fs1 = (r, fs')"
      by (simp add: unfix_initial_conditions_def)
    from unfix_each_frame[OF this] obtain F2 where
      F2: "fs' = fs1\<lparr>var_fixed := F2\<rparr>" "\<forall>v. v \<notin> set dvars \<longrightarrow> F2 v = var_fixed fs1 v" by blast
    have "fs' = fs\<lparr>var_fixed := F2\<rparr>" using F1(1) F2(1) by simp
    moreover have "\<forall>v. v \<notin> set derivs \<union> set dvars \<longrightarrow> F2 v = var_fixed fs v"
      using F1 F2(2) by auto
    ultimately show ?thesis by blast
  qed
qed

lemma unfix_initial_conditions_done:
  assumes "unfix_initial_conditions was_fixed derivs dvars fs = (Inr u, fs')"
  shows "fs' = fs\<lparr>var_fixed := (\<lambda>v. var_fixed fs v \<and>
              \<not> (v \<in> set derivs \<union> set dvars \<and> was_fixed v = Some False))\<rparr>"
proof -
  obtain r1 fs1 where s1: "for_each (unfix_if_not_originally_fixed was_fixed) derivs fs = (r1, fs1)"
    by (cases "for_each (unfix_if_not_originally_fixed was_fixed) derivs fs")
  with assms have r1: "r1 = Inr ()"
    and s2: "for_each (unfix_if_not_originally_fixed was_fixed) dvars fs1 = (Inr u, fs')"
    by (auto simp: unfix_initial_conditions_def split: sum.splits)
  note e1 = unfix_each_done[OF s1[unfolded r1]]
  note e2 = unfix_each_done[OF s2]
  have "(\<lambda>v. var_fixed fs1 v \<and> \<not> (v \<in> set dvars \<and> was_fixed v = Some False)) =
        (\<lambda>v. var_fixed fs v \<and> \<not> (v \<in> set derivs \<union> set dvars \<and> was_fixed v = Some False))"
    by (intro ext) (auto simp: e1)
  with e2 show ?thesis by (simp add: e1)
qed

text \<open>The preparation of an element and its release, field by field.\<close>

lemma derivs_update [simp]:
  "get_derivatives_at (fs\<lparr>con_active := A\<rparr>) t = get_derivatives_at fs t"
  "get_derivatives_at (fs\<lparr>var_value := V\<rparr>) t = get_derivatives_at fs t"
  "get_derivatives_at (fs\<lparr>var_fixed := F\<rparr>) t = get_derivatives_at fs t"
  "state_vars_at (fs\<lparr>con_active := A\<rparr>) t = state_vars_at fs t"
  "state_vars_at (fs\<lparr>var_value := V\<rparr>) t = state_vars_at fs t"
  "state_vars_at (fs\<lparr>var_fixed := F\<rparr>) t = state_vars_at fs t"
  by (simp_all add: get_derivatives_at_def state_vars_at_def)

lemma prepare_element_frame:
  assumes "prepare_element loc t_prev fe fs = (r, fs')"
  shows "\<exists>A V F. fs' = fs\<lparr>con_active := A, var_value := V, var_fixed := F\<rparr> \<and>
     (\<forall>c. (\<forall>t cs. t \<in> set fe \<and> deactivated loc t = Some cs \<longrightarrow> c \<notin> set cs) \<longrightarrow> A c = con_active fs c) \<and>
     (\<forall>v. v \<notin> set (get_derivatives_at fs t_prev) \<union> set (state_vars_at fs t_prev) \<longrightarrow> F v = var_fixed fs v)"
proof -
  obtain r1 m1 where s1: "reactivate_at (deactivated loc) (was_originally_active loc) fe fs = (r1, m1)"
    by (cases "reactivate_at (deactivated loc) (was_originally_active loc) fe fs")
  from reactivate_at_frame[OF s1] obtain A where
    A: "m1 = fs\<lparr>con_active := A\<rparr>"
       "\<forall>c. (\<forall>t cs. t \<in> set fe \<and> deactivated loc t = Some cs \<longrightarrow> c \<notin> set cs) \<longrightarrow> A c = con_active fs c"
    by blast
  have base: "fs\<lparr>con_active := A\<rparr> = fs\<lparr>con_active := A, var_value := var_value fs, var_fixed := var_fixed fs\<rparr>"
    by simp
  show ?thesis
  proof (cases r1)
    case (Inl e)
    with assms s1 have "fs' = m1" by (simp add: prepare_element_def)
    with A base show ?thesis
      by (intro exI[of _ A] exI[of _ "var_value fs"] exI[of _ "var_fixed fs"]) simp
  next
    case (Inr u)
    obtain was_fixed m2 where s2:
      "fix_initial_conditions (get_derivatives_at m1 t_prev) (state_vars_at m1 t_prev) m1 = (was_fixed, m2)"
      by (cases "fix_initial_conditions (get_derivatives_at m1 t_prev) (state_vars_at m1 t_prev) m1")
    from fix_initial_conditions_frame(1)[OF s2] obtain F where
      F: "m2 = m1\<lparr>var_fixed := F\<rparr>"
         "\<forall>v. v \<notin> set (get_derivatives_at m1 t_prev) \<union> set (state_vars_at m1 t_prev) \<longrightarrow> F v = var_fixed m1 v"
      by blast
    obtain V where V: "seed_element t_prev fe m2 = m2\<lparr>var_value := V\<rparr>"
      using seed_element_frame[of t_prev fe m2] by blast
    from assms s1 s2 Inr have "fs' = seed_element t_prev fe m2"
      by (simp add: prepare_element_def)
    then have "fs' = fs\<lparr>con_active := A, var_value := V, var_fixed := F\<rparr>"
      using V F(1) A(1) by simp
    moreover have "\<forall>v. v \<notin> set (get_derivatives_at fs t_prev) \<union> set (state_vars_at fs t_prev) \<longrightarrow> F v = var_fixed fs v"
      using F(2) A(1) by simp
    ultimately show ?thesis using A(2) by blast
  qed
qed

lemma prepare_element_done:
  assumes "prepare_element loc t_prev fe fs = (Inr was_fixed, fs')"
  shows "\<exists>V F. fs' = fs\<lparr>con_active := (\<lambda>c. con_active fs c \<or>
            (\<exists>t cs. t \<in> set fe \<and> deactivated loc t = Some cs \<and> c \<in> set cs \<and>
                     was_originally_active loc c = Some True)),
          var_value := V, var_fixed := F\<rparr> \<and>
     (\<forall>v. was_fixed v = Some True \<longrightarrow> F v) \<and>
     dom was_fixed = set (get_derivatives_at fs t_prev) \<union> set (state_vars_at fs t_prev)"
proof -
  obtain r1 m1 where s1: "reactivate_at (deactivated loc) (was_originally_active loc) fe fs = (r1, m1)"
    by (cases "reactivate_at (deactivated loc) (was_originally_active loc) fe fs")
  with assms have r1: "r1 = Inr ()" by (auto simp: prepare_element_def split: sum.splits prod.splits)
  note m1 = reactivate_at_done[OF s1[unfolded r1]]
  obtain was2 m2 where s2:
    "fix_initial_conditions (get_derivatives_at m1 t_prev) (state_vars_at m1 t_prev) m1 = (was2, m2)"
    by (cases "fix_initial_conditions (get_derivatives_at m1 t_prev) (state_vars_at m1 t_prev) m1")
  from assms s1 r1 s2 have w: "was2 = was_fixed" and f: "fs' = seed_element t_prev fe m2"
    by (simp_all add: prepare_element_def)
  from fix_initial_conditions_frame[OF s2] obtain F where
    F: "m2 = m1\<lparr>var_fixed := F\<rparr>" "\<forall>v. was2 v = Some True \<longrightarrow> F v"
    and d: "dom was2 = set (get_derivatives_at m1 t_prev) \<union> set (state_vars_at m1 t_prev)"
    by blast
  obtain V where V: "seed_element t_prev fe m2 = m2\<lparr>var_value := V\<rparr>"
    using seed_element_frame[of t_prev fe m2] by blast
  have "fs' = fs\<lparr>con_active := (\<lambda>c. con_active fs c \<or>
            (\<exists>t cs. t \<in> set fe \<and> deactivated loc t = Some cs \<and> c \<in> set cs \<and>
                     was_originally_active loc c = Some True)),
          var_value := V, var_fixed := F\<rparr>"
    using f V F(1) by (subst (asm) m1) simp
  moreover have "dom was_fixed = set (get_derivatives_at fs t_prev) \<union> set (state_vars_at fs t_prev)"
    using d w by (simp add: m1)
  ultimately show ?thesis using F(2) w by blast
qed

lemma release_element_frame:
  assumes "release_element loc was_fixed t_prev fe fs = (r, fs')"
  shows "\<exists>A F. fs' = fs\<lparr>con_active := A, var_fixed := F\<rparr> \<and>
     (\<forall>c. (\<forall>t cs. t \<in> set fe \<and> deactivated loc t = Some cs \<longrightarrow> c \<notin> set cs) \<longrightarrow> A c = con_active fs c) \<and>
     (\<forall>v. v \<notin> set (get_derivatives_at fs t_prev) \<union> set (state_vars_at fs t_prev) \<longrightarrow> F v = var_fixed fs v)"
proof -
  obtain r1 m1 where s1: "deactivate_at (deactivated loc) fe fs = (r1, m1)"
    by (cases "deactivate_at (deactivated loc) fe fs")
  from deactivate_at_frame[OF s1] obtain A where
    A: "m1 = fs\<lparr>con_active := A\<rparr>"
       "\<forall>c. (\<forall>t cs. t \<in> set fe \<and> deactivated loc t = Some cs \<longrightarrow> c \<notin> set cs) \<longrightarrow> A c = con_active fs c"
    by blast
  show ?thesis
  proof (cases r1)
    case (Inl e)
    with assms s1 have "fs' = m1" by (simp add: release_element_def)
    with A show ?thesis
      by (intro exI[of _ A] exI[of _ "var_fixed fs"]) simp
  next
    case (Inr u)
    with assms s1 have "unfix_initial_conditions was_fixed (get_derivatives_at m1 t_prev) (state_vars_at m1 t_prev) m1 = (r, fs')"
      by (simp add: release_element_def)
    from unfix_initial_conditions_frame[OF this] obtain F where
      F: "fs' = m1\<lparr>var_fixed := F\<rparr>"
         "\<forall>v. v \<notin> set (get_derivatives_at m1 t_prev) \<union> set (state_vars_at m1 t_prev) \<longrightarrow> F v = var_fixed m1 v"
      by blast
    have "fs' = fs\<lparr>con_active := A, var_fixed := F\<rparr>" using F(1) A(1) by simp
    moreover have "\<forall>v. v \<notin> set (get_derivatives_at fs t_prev) \<union> set (state_vars_at fs t_prev) \<longrightarrow> F v = var_fixed fs v"
      using F(2) A(1) by simp
    ultimately show ?thesis using A(2) by blast
  qed
qed

lemma release_element_done:
  assumes "release_element loc was_fixed t_prev fe fs = (Inr u, fs')"
  shows "fs' = fs\<lparr>con_active := (\<lambda>c. con_active fs c \<and>
              \<not> (\<exists>t cs. t \<in> set fe \<and> deactivated loc t = Some cs \<and> c \<in> set cs)),
            var_fixed := (\<lambda>v. var_fixed fs v \<and>
              \<not> (v \<in> set (get_derivatives_at fs t_prev) \<union> set (state_vars_at fs t_prev) \<and>
                 was_fixed v = Some False))\<rparr>"
proof -
  obtain r1 m1 where s1: "deactivate_at (deactivated loc) fe fs = (r1, m1)"
    by (cases "deactivate_at (deactivated loc) fe fs")
  with assms have r1: "r1 = Inr ()"
    and s2: "unfix_initial_conditions was_fixed (get_derivatives_at m1 t_prev) (state_vars_at m1 t_prev) m1 = (Inr u, fs')"
    by (auto simp: release_element_def split: sum.splits)
  note m1 = deactivate_at_done[OF s1[unfolded r1]]
  from unfix_initial_conditions_done[OF s2] show ?thesis
    by (simp add: m1)
qed

lemma log_fields [simp]:
  "model (log_info msg w) = model w" "solves (log_info msg w) = solves w"
  "init_log (log_info msg w) = init_log w @ [LogInfo msg]"
  "model (log_error msg w) = model w" "solves (log_error msg w) = solves w"
  "init_log (log_error msg w) = init_log w @ [LogError msg]"
  by (simp_all add: log_info_def log_error_def)

lemma error_distinct [simp]:
  "element_solve_error \<noteq> element_dof_error" "element_solve_error \<noteq> initial_dof_error"
  "element_solve_error \<noteq> initial_solve_error" "element_solve_error \<noteq> KeyError"
  "element_solve_error \<noteq> IndexError"
  "element_dof_error \<noteq> KeyError" "element_dof_error \<noteq> IndexError"
  "element_dof_error \<noteq> initial_solve_error" "element_dof_error \<noteq> initial_dof_error"
  "initial_dof_error \<noteq> KeyError" "initial_dof_error \<noteq> IndexError"
  "initial_dof_error \<noteq> initial_solve_error"
  "initial_solve_error \<noteq> KeyError" "initial_solve_error \<noteq> IndexError"
  by (simp_all add: element_solve_error_def element_dof_error_def initial_dof_error_def
      initial_solve_error_def)

lemma solve_element_eq:
  "solve_element solver dof ignore_dof i w =
     (if \<not> ignore_dof \<and> dof (model w) \<noteq> 0 then (Inl element_dof_error, log_error dof_message w)
      else if fst (solver (model w)) \<noteq> optimal then
        (Inl element_solve_error,
         log_error (failed_message i)
           (w\<lparr>model := (model w)\<lparr>var_value := snd (solver (model w))\<rparr>,
              solves := solves w @ [(Element i, model w)]\<rparr>))
      else
        (Inr (),
         log_info (solved_message i)
           (w\<lparr>model := (model w)\<lparr>var_value := snd (solver (model w))\<rparr>,
              solves := solves w @ [(Element i, model w)]\<rparr>)))"
  by (simp add: solve_element_def call_solver_def split: prod.splits)

text \<open>The ways a pass of the loop can end.\<close>

lemma element_step_cases [consumes 1, case_names points prepare solve release completed]:
  assumes "element_step solver dof ignore_dof time ncp nfe loc i w = (r, w')"
  obtains
    e where "element_points time ncp i = Inl e" "r = Inl e" "w' = w"
  | t_prev fe e m2 where "element_points time ncp i = Inr (t_prev, fe)"
      "prepare_element loc t_prev fe (model w) = (Inl e, m2)"
      "r = Inl e" "model w' = m2" "solves w' = solves w"
  | t_prev fe was_fixed m2 w2 e where "element_points time ncp i = Inr (t_prev, fe)"
      "prepare_element loc t_prev fe (model w) = (Inr was_fixed, m2)"
      "model w2 = m2" "solves w2 = solves w"
      "solve_element solver dof ignore_dof i w2 = (Inl e, w')" "r = Inl e"
  | t_prev fe was_fixed m2 w2 w3 e where "element_points time ncp i = Inr (t_prev, fe)"
      "prepare_element loc t_prev fe (model w) = (Inr was_fixed, m2)"
      "model w2 = m2" "solves w2 = solves w"
      "solve_element solver dof ignore_dof i w2 = (Inr (), w3)"
      "release_element loc was_fixed t_prev fe (model w3) = (Inl e, model w')"
      "r = Inl e" "solves w' = solves w3"
  | t_prev fe was_fixed m2 w2 w3 where "element_points time ncp i = Inr (t_prev, fe)"
      "prepare_element loc t_prev fe (model w) = (Inr was_fixed, m2)"
      "model w2 = m2" "solves w2 = solves w"
      "solve_element solver dof ignore_dof i w2 = (Inr (), w3)"
      "release_element loc was_fixed t_prev fe (model w3) = (Inr (), model w')"
      "r = Inr ()" "solves w' = solves w3"
proof (cases "element_points time ncp i")
  case (Inl e)
  with assms have "r = Inl e" "w' = w" by (simp_all add: element_step_def)
  with Inl show thesis by (rule that(1))
next
  case (Inr p)
  obtain t_prev fe where ep: "element_points time ncp i = Inr (t_prev, fe)"
    using Inr by (cases p) simp
  let ?w1 = "log_info (entering_message i nfe) w"
  obtain r1 m2 where pe: "prepare_element loc t_prev fe (model w) = (r1, m2)"
    by (cases "prepare_element loc t_prev fe (model w)")
  show thesis
  proof (cases r1)
    case (Inl e)
    with assms ep pe have "r = Inl e" "w' = ?w1\<lparr>model := m2\<rparr>"
      by (simp_all add: element_step_def Let_def)
    then have "r = Inl e" "model w' = m2" "solves w' = solves w" by simp_all
    with ep pe[unfolded Inl] show thesis by (rule that(2))
  next
    case (Inr was_fixed)
    note pe' = pe[unfolded Inr]
    let ?w2 = "log_info (solving_message i) (?w1\<lparr>model := m2\<rparr>)"
    have w2: "model ?w2 = m2" "solves ?w2 = solves w" by simp_all
    obtain r3 w3 where se: "solve_element solver dof ignore_dof i ?w2 = (r3, w3)"
      by (cases "solve_element solver dof ignore_dof i ?w2")
    show thesis
    proof (cases r3)
      case (Inl e)
      with assms ep pe' se have "r = Inl e" "w' = w3"
        by (simp_all add: element_step_def Let_def)
      with ep pe' w2 se[unfolded Inl] show thesis by (intro that(3)) auto
    next
      case (Inr u3)
      note se' = se[unfolded Inr]
      obtain r4 m4 where re: "release_element loc was_fixed t_prev fe (model w3) = (r4, m4)"
        by (cases "release_element loc was_fixed t_prev fe (model w3)")
      show thesis
      proof (cases r4)
        case (Inl e)
        with assms ep pe' se' re have "r = Inl e" "w' = w3\<lparr>model := m4\<rparr>"
          by (simp_all add: element_step_def Let_def)
        then have "r = Inl e" "model w' = m4" "solves w' = solves w3" by simp_all
        with ep pe' w2 se' re[unfolded Inl] show thesis by (intro that(4)) auto
      next
        case (Inr u4)
        with assms ep pe' se' re have "r = Inr ()"
          "w' = log_info (complete_message i) (w3\<lparr>model := m4\<rparr>)"
          by (simp_all add: element_step_def Let_def)
        then have "r = Inr ()" "model w' = m4" "solves w' = solves w3" by simp_all
        with ep pe' w2 se' re[unfolded Inr] show thesis by (intro that(5)) auto
      qed
    qed
  qed
qed

lemma for_each_success_invariant:
  assumes "for_each body xs s = (Inr u, s')" and "I s"
    and "\<And>x t t'. x \<in> set xs \<Longrightarrow> I t \<Longrightarrow> body x t = (Inr (), t') \<Longrightarrow> I t'"
  shows "I s'"
  using assms
proof (induction xs arbitrary: s)
  case Nil
  then show ?case by simp
next
  case (Cons x xs)
  obtain r1 s1 where b: "body x s = (r1, s1)" by (cases "body x s")
  with Cons.prems(1) have r1: "r1 = Inr ()" and rest: "for_each body xs s1 = (Inr u, s')"
    by (auto split: sum.splits)
  have "I s1" using Cons.prems(2,3) b r1 by auto
  then show ?case using rest Cons.prems(3) by (intro Cons.IH) auto
qed

text \<open>A pass of the loop that completes: its steps, one by one.\<close>

lemma element_step_done:
  assumes "element_step solver dof ignore_dof time ncp nfe loc i w = (Inr u, w')"
  shows "\<exists>t_prev fe was_fixed m2.
     element_points time ncp i = Inr (t_prev, fe) \<and>
     prepare_element loc t_prev fe (model w) = (Inr was_fixed, m2) \<and>
     (ignore_dof \<or> dof m2 = 0) \<and> fst (solver m2) = optimal \<and>
     solves w' = solves w @ [(Element i, m2)] \<and>
     release_element loc was_fixed t_prev fe (m2\<lparr>var_value := snd (solver m2)\<rparr>) = (Inr (), model w')"
  using assms
proof (cases rule: element_step_cases)
  case (completed t_prev fe was_fixed m2 w2 w3)
  from completed(5) have "(ignore_dof \<or> dof m2 = 0) \<and> fst (solver m2) = optimal \<and>
      solves w3 = solves w @ [(Element i, m2)] \<and> model w3 = m2\<lparr>var_value := snd (solver m2)\<rparr>"
    unfolding solve_element_eq using completed(3,4)
    by (auto split: if_splits)
  with completed show ?thesis by auto
qed simp_all

text \<open>
  A pass that completes leaves every \<^verbatim>\<open>active\<close> flag as it found it, provided the
  recorded components were inactive when the pass began.
\<close>

lemma element_step_active:
  assumes step: "element_step solver dof ignore_dof time ncp nfe loc i w = (Inr u, w')"
    and base: "\<And>t cs c. deactivated loc t = Some cs \<Longrightarrow> c \<in> set cs \<Longrightarrow> \<not> con_active (model w) c"
  shows "con_active (model w') = con_active (model w)"
proof -
  from element_step_done[OF step] obtain t_prev fe was_fixed m2 where
    pe: "prepare_element loc t_prev fe (model w) = (Inr was_fixed, m2)" and
    re: "release_element loc was_fixed t_prev fe (m2\<lparr>var_value := snd (solver m2)\<rparr>) = (Inr (), model w')"
    by blast
  from prepare_element_done[OF pe] obtain V F where
    m2: "m2 = (model w)\<lparr>con_active := (\<lambda>c. con_active (model w) c \<or>
            (\<exists>t cs. t \<in> set fe \<and> deactivated loc t = Some cs \<and> c \<in> set cs \<and>
                     was_originally_active loc c = Some True)),
          var_value := V, var_fixed := F\<rparr>" by blast
  have a2: "con_active m2 = (\<lambda>c. con_active (model w) c \<or>
            (\<exists>t cs. t \<in> set fe \<and> deactivated loc t = Some cs \<and> c \<in> set cs \<and>
                     was_originally_active loc c = Some True))"
    by (subst m2) simp
  have "con_active (model w') = (\<lambda>c. con_active m2 c \<and>
              \<not> (\<exists>t cs. t \<in> set fe \<and> deactivated loc t = Some cs \<and> c \<in> set cs))"
    by (subst release_element_done[OF re]) simp
  also have "\<dots> = con_active (model w)"
    using base by (intro ext) (auto simp: a2)
  finally show ?thesis .
qed

lemma element_loop_active:
  assumes loop: "for_each (element_step solver dof ignore_dof time ncp nfe loc) is w = (Inr u, w')"
    and base: "\<And>t cs c. deactivated loc t = Some cs \<Longrightarrow> c \<in> set cs \<Longrightarrow> \<not> con_active (model w) c"
  shows "con_active (model w') = con_active (model w)"
proof (rule for_each_success_invariant[OF loop, where I = "\<lambda>x. con_active (model x) = con_active (model w)"])
  show "con_active (model w) = con_active (model w)" by simp
next
  fix x t t'
  assume t: "con_active (model t) = con_active (model w)"
    and s: "element_step solver dof ignore_dof time ncp nfe loc x t = (Inr (), t')"
  have "con_active (model t') = con_active (model t)"
    using base by (intro element_step_active[OF s]) (simp add: t)
  with t show "con_active (model t') = con_active (model w)" by simp
qed

lemma restore_model_done:
  assumes "restore_model time loc w = (Inr u, w')"
  shows "model w' = (model w)
     \<lparr>con_active := (\<lambda>c. c \<in> set (con_unindexed_by_time loc) \<or> con_active (model w) c \<or>
            (\<exists>t cs. t \<in> set time \<and> deactivated loc t = Some cs \<and> c \<in> set cs \<and>
                     was_originally_active loc c = Some True)),
      var_fixed := (\<lambda>v. v \<notin> set (var_unindexed_by_time loc) \<and> var_fixed (model w) v)\<rparr>"
    and "solves w' = solves w"
proof -
  obtain r1 m1 where s1: "reactivate_at (deactivated loc) (was_originally_active loc) time (model w) = (r1, m1)"
    by (cases "reactivate_at (deactivated loc) (was_originally_active loc) time (model w)")
  with assms have r1: "r1 = Inr ()" by (cases r1) (auto simp: restore_model_def)
  note m1 = reactivate_at_done[OF s1[unfolded r1]]
  from assms s1 r1 have w': "w' = log_info ''Initialization completed. Model has been reactivated''
                     (w\<lparr>model := fold unfix_var (var_unindexed_by_time loc)
                                   (fold activate (con_unindexed_by_time loc) m1)\<rparr>)"
    by (simp add: restore_model_def)
  show "solves w' = solves w" by (simp add: w')
  show "model w' = (model w)
     \<lparr>con_active := (\<lambda>c. c \<in> set (con_unindexed_by_time loc) \<or> con_active (model w) c \<or>
            (\<exists>t cs. t \<in> set time \<and> deactivated loc t = Some cs \<and> c \<in> set cs \<and>
                     was_originally_active loc c = Some True)),
      var_fixed := (\<lambda>v. v \<notin> set (var_unindexed_by_time loc) \<and> var_fixed (model w) v)\<rparr>"
    by (simp add: w' fold_unfix_var fold_activate m1)
qed

text \<open>The stages of a run that reaches the end.\<close>

lemma initialize_done:
  assumes "fst (initialize_by_time_element solver dof ignore_dof fs time m) = Inr ()"
  obtains cs info ncp loc w1 w2 where
    "fs = FlowsheetBlock" "time = ContinuousSet cs" "discretization_info cs = Some info"
    "scheme_ncp info = Inr ncp"
    "solve_initial_conditions solver dof ignore_dof (points cs) \<lparr>model = m, solves = [], init_log = []\<rparr> = (Inr loc, w1)"
    "for_each (element_step solver dof ignore_dof (points cs) ncp (di_nfe info) loc) [1..<di_nfe info + 1] w1 = (Inr (), w2)"
    "restore_model (points cs) loc w2 = (Inr (), snd (initialize_by_time_element solver dof ignore_dof fs time m))"
proof -
  let ?w = "\<lparr>model = m, solves = [], init_log = []\<rparr>"
  from assms obtain pts nfe ncp where ca: "check_arguments fs time = Inr (pts, nfe, ncp)"
    by (cases "check_arguments fs time") (auto simp: initialize_by_time_element_def)
  then obtain cs info where a: "fs = FlowsheetBlock" "time = ContinuousSet cs"
    "discretization_info cs = Some info" "scheme_ncp info = Inr ncp" "pts = points cs" "nfe = di_nfe info"
    by (auto simp: check_arguments_def split: argument.splits option.splits sum.splits)
  obtain r1 w1 where s1: "solve_initial_conditions solver dof ignore_dof pts ?w = (r1, w1)"
    by (cases "solve_initial_conditions solver dof ignore_dof pts ?w")
  with assms ca obtain loc where r1: "r1 = Inr loc"
    by (cases r1) (auto simp: initialize_by_time_element_def)
  obtain r2 w2 where s2: "for_each (element_step solver dof ignore_dof pts ncp nfe loc) [1..<nfe + 1] w1 = (r2, w2)"
    by (cases "for_each (element_step solver dof ignore_dof pts ncp nfe loc) [1..<nfe + 1] w1")
  with assms ca s1 r1 have r2: "r2 = Inr ()"
    by (cases r2) (auto simp: initialize_by_time_element_def)
  from assms ca s1 r1 s2 r2
  have s3: "initialize_by_time_element solver dof ignore_dof fs time m = restore_model pts loc w2"
    by (simp add: initialize_by_time_element_def)
  with assms have "restore_model pts loc w2 = (Inr (), snd (initialize_by_time_element solver dof ignore_dof fs time m))"
    by (cases "restore_model pts loc w2") auto
  with a s1 r1 s2 r2 show thesis by (intro that) auto
qed

lemma record_and_fix_shape:
  "\<exists>b. record_and_fix_deriv x s = ((fst s)(x \<mapsto> var_fixed (snd s) x), if b then fix_var x (snd s) else snd s)"
  "\<exists>b. record_and_fix_dvar drv x s = ((fst s)(x \<mapsto> var_fixed (snd s) x), if b then fix_var x (snd s) else snd s)"
  by (cases s; simp add: record_and_fix_deriv_def record_and_fix_dvar_def; blast)+

lemma record_and_fix_snapshot:
  assumes "\<And>x s. x \<in> set xs \<Longrightarrow>
      \<exists>b. f x s = ((fst s)(x \<mapsto> var_fixed (snd s) x), if b then fix_var x (snd s) else snd s)"
    and "distinct xs"
  shows "(\<forall>v \<in> set xs. fst (fold f xs s) v = Some (var_fixed (snd s) v)) \<and>
         (\<forall>v. v \<notin> set xs \<longrightarrow> fst (fold f xs s) v = fst s v \<and>
                var_fixed (snd (fold f xs s)) v = var_fixed (snd s) v)"
  using assms
proof (induction xs arbitrary: s)
  case Nil
  then show ?case by simp
next
  case (Cons x xs)
  from Cons.prems(1)[OF list.set_intros(1)] obtain b where
    b: "f x s = ((fst s)(x \<mapsto> var_fixed (snd s) x), if b then fix_var x (snd s) else snd s)" by blast
  have other: "\<And>v. v \<noteq> x \<Longrightarrow> var_fixed (snd (f x s)) v = var_fixed (snd s) v"
    by (simp add: b fix_var_def)
  have IH: "(\<forall>v \<in> set xs. fst (fold f xs (f x s)) v = Some (var_fixed (snd (f x s)) v)) \<and>
         (\<forall>v. v \<notin> set xs \<longrightarrow> fst (fold f xs (f x s)) v = fst (f x s) v \<and>
                var_fixed (snd (fold f xs (f x s))) v = var_fixed (snd (f x s)) v)"
    using Cons.prems by (intro Cons.IH) auto
  note IH1 = IH[THEN conjunct1, rule_format]
  note IH2 = IH[THEN conjunct2, rule_format, THEN conjunct1]
  note IH3 = IH[THEN conjunct2, rule_format, THEN conjunct2]
  have x: "x \<notin> set xs" using Cons.prems(2) by simp
  have fx: "fst (f x s) x = Some (var_fixed (snd s) x)" "\<And>v. v \<noteq> x \<Longrightarrow> fst (f x s) v = fst s v"
    by (simp_all add: b)
  show ?case
  proof (intro conjI ballI allI impI)
    fix v assume v: "v \<in> set (x # xs)"
    show "fst (fold f (x # xs) s) v = Some (var_fixed (snd s) v)"
    proof (cases "v = x")
      case True
      then show ?thesis using IH2[OF x] fx(1) by simp
    next
      case False
      with v have "v \<in> set xs" by simp
      from IH1[OF this] other[OF False] show ?thesis by simp
    qed
  next
    fix v assume "v \<notin> set (x # xs)"
    then have "v \<notin> set xs" "v \<noteq> x" by simp_all
    then show "fst (fold f (x # xs) s) v = fst s v" using IH2[of v] fx(2)[of v] by simp
  next
    fix v assume "v \<notin> set (x # xs)"
    then have "v \<notin> set xs" "v \<noteq> x" by simp_all
    then show "var_fixed (snd (fold f (x # xs) s)) v = var_fixed (snd s) v"
      using IH3[of v] other[of v] by simp
  qed
qed

text \<open>
  When no variable is listed twice, the record made by the fixing step holds the flags
  the variables had before the step.
\<close>

lemma fix_initial_conditions_snapshot:
  assumes "fix_initial_conditions derivs dvars fs = (was_fixed, fs')"
    and "distinct (derivs @ dvars)"
  shows "\<forall>v \<in> set derivs \<union> set dvars. was_fixed v = Some (var_fixed fs v)"
proof -
  obtain was1 fs1 where s1: "fold record_and_fix_deriv derivs (Map.empty, fs) = (was1, fs1)"
    by (cases "fold record_and_fix_deriv derivs (Map.empty, fs)")
  have two: "fold (record_and_fix_dvar (last derivs)) dvars (was1, fs1) = (was_fixed, fs')"
    using assms(1) s1 by (simp add: fix_initial_conditions_def)
  have d: "distinct derivs" "distinct dvars" "set derivs \<inter> set dvars = {}"
    using assms(2) by auto
  have one: "(\<forall>v \<in> set derivs. was1 v = Some (var_fixed fs v)) \<and>
         (\<forall>v. v \<notin> set derivs \<longrightarrow> was1 v = None \<and> var_fixed fs1 v = var_fixed fs v)"
    using record_and_fix_snapshot[of derivs record_and_fix_deriv "(Map.empty, fs)", OF record_and_fix_shape(1) d(1)] s1
    by simp
  have snd: "(\<forall>v \<in> set dvars. was_fixed v = Some (var_fixed fs1 v)) \<and>
         (\<forall>v. v \<notin> set dvars \<longrightarrow> was_fixed v = was1 v \<and> var_fixed fs' v = var_fixed fs1 v)"
    using record_and_fix_snapshot[of dvars "record_and_fix_dvar (last derivs)" "(was1, fs1)", OF record_and_fix_shape(2) d(2)] two
    by simp
  note one1 = one[THEN conjunct1, rule_format]
  note one2 = one[THEN conjunct2, rule_format, THEN conjunct2]
  note snd1 = snd[THEN conjunct1, rule_format]
  note snd2 = snd[THEN conjunct2, rule_format, THEN conjunct1]
  show ?thesis
  proof
    fix v assume v: "v \<in> set derivs \<union> set dvars"
    show "was_fixed v = Some (var_fixed fs v)"
    proof (cases "v \<in> set dvars")
      case True
      with d(3) have "v \<notin> set derivs" by auto
      from snd1[OF True] one2[OF this] show ?thesis by simp
    next
      case False
      with v have "v \<in> set derivs" by simp
      from snd2[OF False] one1[OF this] show ?thesis by simp
    qed
  qed
qed

lemma prepare_element_snapshot:
  assumes "prepare_element loc t_prev fe fs = (Inr was_fixed, fs')"
    and "distinct (get_derivatives_at fs t_prev @ state_vars_at fs t_prev)"
  shows "\<forall>v \<in> set (get_derivatives_at fs t_prev) \<union> set (state_vars_at fs t_prev).
           was_fixed v = Some (var_fixed fs v)"
proof -
  obtain r1 m1 where s1: "reactivate_at (deactivated loc) (was_originally_active loc) fe fs = (r1, m1)"
    by (cases "reactivate_at (deactivated loc) (was_originally_active loc) fe fs")
  with assms(1) have r1: "r1 = Inr ()" by (auto simp: prepare_element_def split: sum.splits prod.splits)
  note m1 = reactivate_at_done[OF s1[unfolded r1]]
  obtain was2 m2 where s2:
    "fix_initial_conditions (get_derivatives_at m1 t_prev) (state_vars_at m1 t_prev) m1 = (was2, m2)"
    by (cases "fix_initial_conditions (get_derivatives_at m1 t_prev) (state_vars_at m1 t_prev) m1")
  from assms(1) s1 r1 s2 have w: "was2 = was_fixed"
    by (simp add: prepare_element_def)
  have g: "get_derivatives_at m1 t_prev = get_derivatives_at fs t_prev"
    "state_vars_at m1 t_prev = state_vars_at fs t_prev" "var_fixed m1 = var_fixed fs"
    by (simp_all add: m1)
  from fix_initial_conditions_snapshot[OF s2] assms(2) show ?thesis
    by (simp add: g w)
qed
lemma for_each_error:
  assumes "for_each body xs s = (Inl e, s')"
    and "\<And>x t e' t'. x \<in> set xs \<Longrightarrow> body x t = (Inl e', t') \<Longrightarrow> P e'"
  shows "P e"
  using assms
proof (induction xs arbitrary: s)
  case Nil
  then show ?case by simp
next
  case (Cons x xs)
  obtain r1 s1 where b: "body x s = (r1, s1)" by (cases "body x s")
  show ?case
  proof (cases r1)
    case (Inl e1)
    with b Cons.prems(1) have "e1 = e" by simp
    with b Inl Cons.prems(2)[of x s e s1] show ?thesis by simp
  next
    case (Inr u)
    with b Cons.prems(1) have "for_each body xs s1 = (Inl e, s')" by simp
    then show ?thesis using Cons.prems(2) by (intro Cons.IH) auto
  qed
qed

lemma time_points_error: "time_points ps ks = Inl e \<Longrightarrow> e = IndexError"
  by (induction ks arbitrary: e) (auto simp: time_at_def split: if_splits sum.splits)

lemma element_points_error: "element_points time ncp i = Inl e \<Longrightarrow> e = IndexError"
  by (auto simp: element_points_def time_at_def dest: time_points_error split: if_splits sum.splits)

lemma activate_each_error:
  "for_each (activate_if_originally_active was) cs fs = (Inl e, fs') \<Longrightarrow> e = KeyError"
  by (erule for_each_error) (auto simp: activate_if_originally_active_def split: option.splits)

lemma reactivate_at_error: "reactivate_at deact was ts fs = (Inl e, fs') \<Longrightarrow> e = KeyError"
  unfolding reactivate_at_def
  by (erule for_each_error) (auto dest: activate_each_error split: option.splits)

lemma deactivate_at_error: "deactivate_at deact ts fs = (Inl e, fs') \<Longrightarrow> e = KeyError"
  unfolding deactivate_at_def
  by (erule for_each_error) (auto split: option.splits)

lemma unfix_each_error:
  "for_each (unfix_if_not_originally_fixed was_fixed) vs fs = (Inl e, fs') \<Longrightarrow> e = KeyError"
  by (erule for_each_error) (auto simp: unfix_if_not_originally_fixed_def split: option.splits)

lemma unfix_initial_conditions_error:
  "unfix_initial_conditions was_fixed derivs dvars fs = (Inl e, fs') \<Longrightarrow> e = KeyError"
  by (auto simp: unfix_initial_conditions_def dest: unfix_each_error split: prod.splits sum.splits)

lemma prepare_element_error: "prepare_element loc t_prev fe fs = (Inl e, fs') \<Longrightarrow> e = KeyError"
  by (auto simp: prepare_element_def dest: reactivate_at_error split: prod.splits sum.splits)

lemma release_element_error: "release_element loc was_fixed t_prev fe fs = (Inl e, fs') \<Longrightarrow> e = KeyError"
  by (auto simp: release_element_def dest: deactivate_at_error unfix_initial_conditions_error
      split: prod.splits sum.splits)

text \<open>Any pass of the loop: its outcome and what it adds to the record of solver calls.\<close>

lemma element_step_solves:
  assumes "element_step solver dof ignore_dof time ncp nfe loc i w = (r, w')"
  shows "(solves w' = solves w \<and>
            (r = Inl IndexError \<or> r = Inl KeyError \<or> (\<not> ignore_dof \<and> r = Inl element_dof_error))) \<or>
         (\<exists>m2. solves w' = solves w @ [(Element i, m2)] \<and> (ignore_dof \<or> dof m2 = 0) \<and>
            (fst (solver m2) = optimal \<and> (r = Inr () \<or> r = Inl KeyError) \<or>
             fst (solver m2) \<noteq> optimal \<and> r = Inl element_solve_error \<and>
             init_log w' \<noteq> [] \<and> last (init_log w') = LogError (failed_message i)))"
  using assms
proof (cases rule: element_step_cases)
  case (points e)
  with element_points_error[OF points(1)] show ?thesis by simp
next
  case (prepare t_prev fe e m2)
  with prepare_element_error[OF prepare(2)] show ?thesis by simp
next
  case (solve t_prev fe was_fixed m2 w2 e)
  from solve(5) show ?thesis
    unfolding solve_element_eq using solve(3,4,6)
    by (auto split: if_splits)
next
  case (release t_prev fe was_fixed m2 w2 w3 e)
  from release(5) have "(ignore_dof \<or> dof m2 = 0) \<and> fst (solver m2) = optimal \<and>
      solves w3 = solves w @ [(Element i, m2)]"
    unfolding solve_element_eq using release(3,4) by (auto split: if_splits)
  moreover have "e = KeyError" using release(6) by (rule release_element_error)
  ultimately show ?thesis using release(7,8) by auto
next
  case (completed t_prev fe was_fixed m2 w2 w3)
  from completed(5) have "(ignore_dof \<or> dof m2 = 0) \<and> fst (solver m2) = optimal \<and>
      solves w3 = solves w @ [(Element i, m2)]"
    unfolding solve_element_eq using completed(3,4) by (auto split: if_splits)
  then show ?thesis using completed(7,8) by auto
qed

text \<open>
  Any pass of the loop leaves the flags of the components not indexed by time as they
  are, also in the flowsheet it hands to the solver, when the recorded components are
  all indexed by time.
\<close>

lemma pair_vars_indexed:
  "v \<in> set (get_derivatives_at fs t) \<union> set (state_vars_at fs t) \<Longrightarrow> snd v = Some t"
  by (auto simp: get_derivatives_at_def state_vars_at_def)

lemma prepare_element_unindexed:
  assumes "prepare_element loc t_prev fe fs = (r, fs')"
    and "\<forall>t cs c. deactivated loc t = Some cs \<and> c \<in> set cs \<longrightarrow> snd c \<noteq> None"
  shows "snd c = None \<Longrightarrow> con_active fs' c = con_active fs c"
    and "snd v = None \<Longrightarrow> var_fixed fs' v = var_fixed fs v"
proof -
  from prepare_element_frame[OF assms(1)] obtain A V F where
    fs': "fs' = fs\<lparr>con_active := A, var_value := V, var_fixed := F\<rparr>"
    and A: "\<forall>c. (\<forall>t cs. t \<in> set fe \<and> deactivated loc t = Some cs \<longrightarrow> c \<notin> set cs) \<longrightarrow> A c = con_active fs c"
    and F: "\<forall>v. v \<notin> set (get_derivatives_at fs t_prev) \<union> set (state_vars_at fs t_prev) \<longrightarrow> F v = var_fixed fs v"
    by blast
  show "con_active fs' c = con_active fs c" if "snd c = None"
  proof -
    have "\<forall>t cs. t \<in> set fe \<and> deactivated loc t = Some cs \<longrightarrow> c \<notin> set cs"
      using assms(2) that by blast
    with A[rule_format, of c] show ?thesis by (simp add: fs')
  qed
  show "var_fixed fs' v = var_fixed fs v" if "snd v = None"
  proof -
    have "v \<notin> set (get_derivatives_at fs t_prev) \<union> set (state_vars_at fs t_prev)"
      using pair_vars_indexed[of v fs t_prev] that by auto
    with F[rule_format, of v] show ?thesis by (simp add: fs')
  qed
qed

lemma release_element_unindexed:
  assumes "release_element loc was_fixed t_prev fe fs = (r, fs')"
    and "\<forall>t cs c. deactivated loc t = Some cs \<and> c \<in> set cs \<longrightarrow> snd c \<noteq> None"
  shows "snd c = None \<Longrightarrow> con_active fs' c = con_active fs c"
    and "snd v = None \<Longrightarrow> var_fixed fs' v = var_fixed fs v"
proof -
  from release_element_frame[OF assms(1)] obtain A F where
    fs': "fs' = fs\<lparr>con_active := A, var_fixed := F\<rparr>"
    and A: "\<forall>c. (\<forall>t cs. t \<in> set fe \<and> deactivated loc t = Some cs \<longrightarrow> c \<notin> set cs) \<longrightarrow> A c = con_active fs c"
    and F: "\<forall>v. v \<notin> set (get_derivatives_at fs t_prev) \<union> set (state_vars_at fs t_prev) \<longrightarrow> F v = var_fixed fs v"
    by blast
  show "con_active fs' c = con_active fs c" if "snd c = None"
  proof -
    have "\<forall>t cs. t \<in> set fe \<and> deactivated loc t = Some cs \<longrightarrow> c \<notin> set cs"
      using assms(2) that by blast
    with A[rule_format, of c] show ?thesis by (simp add: fs')
  qed
  show "var_fixed fs' v = var_fixed fs v" if "snd v = None"
  proof -
    have "v \<notin> set (get_derivatives_at fs t_prev) \<union> set (state_vars_at fs t_prev)"
      using pair_vars_indexed[of v fs t_prev] that by auto
    with F[rule_format, of v] show ?thesis by (simp add: fs')
  qed
qed

lemma solve_element_model:
  assumes "solve_element solver dof ignore_dof i w = (r, w')"
  shows "con_active (model w') = con_active (model w)" "var_fixed (model w') = var_fixed (model w)"
    and "solves w' = solves w \<or> solves w' = solves w @ [(Element i, model w)]"
  using assms unfolding solve_element_eq by (auto split: if_splits)

lemma element_step_unindexed:
  assumes step: "element_step solver dof ignore_dof time ncp nfe loc i w = (r, w')"
    and H: "\<forall>t cs c. deactivated loc t = Some cs \<and> c \<in> set cs \<longrightarrow> snd c \<noteq> None"
  shows "snd c = None \<Longrightarrow> con_active (model w') c = con_active (model w) c"
    and "snd v = None \<Longrightarrow> var_fixed (model w') v = var_fixed (model w) v"
    and "(st, ms) \<in> set (solves w') \<Longrightarrow> (st, ms) \<in> set (solves w) \<or>
           ((snd c = None \<longrightarrow> con_active ms c = con_active (model w) c) \<and>
            (snd v = None \<longrightarrow> var_fixed ms v = var_fixed (model w) v))"
proof -
  have "(snd c = None \<longrightarrow> con_active (model w') c = con_active (model w) c) \<and>
        (snd v = None \<longrightarrow> var_fixed (model w') v = var_fixed (model w) v) \<and>
        ((st, ms) \<in> set (solves w') \<longrightarrow> (st, ms) \<in> set (solves w) \<or>
           ((snd c = None \<longrightarrow> con_active ms c = con_active (model w) c) \<and>
            (snd v = None \<longrightarrow> var_fixed ms v = var_fixed (model w) v)))"
    using step
  proof (cases rule: element_step_cases)
    case (points e)
    then show ?thesis by simp
  next
    case (prepare t_prev fe e m2)
    with prepare_element_unindexed(1)[OF prepare(2) H, where c = c] prepare_element_unindexed(2)[OF prepare(2) H, where v = v] show ?thesis by auto
  next
    case (solve t_prev fe was_fixed m2 w2 e)
    note p = prepare_element_unindexed(1)[OF solve(2) H, where c = c] prepare_element_unindexed(2)[OF solve(2) H, where v = v]
    note s = solve_element_model[OF solve(5)]
    from p s solve(3,4) show ?thesis by auto
  next
    case (release t_prev fe was_fixed m2 w2 w3 e)
    note p = prepare_element_unindexed(1)[OF release(2) H, where c = c] prepare_element_unindexed(2)[OF release(2) H, where v = v]
    note s = solve_element_model[OF release(5)]
    note q = release_element_unindexed(1)[OF release(6) H, where c = c] release_element_unindexed(2)[OF release(6) H, where v = v]
    from p s q release(3,4,8) show ?thesis by auto
  next
    case (completed t_prev fe was_fixed m2 w2 w3)
    note p = prepare_element_unindexed(1)[OF completed(2) H, where c = c] prepare_element_unindexed(2)[OF completed(2) H, where v = v]
    note s = solve_element_model[OF completed(5)]
    note q = release_element_unindexed(1)[OF completed(6) H, where c = c] release_element_unindexed(2)[OF completed(6) H, where v = v]
    from p s q completed(3,4,8) show ?thesis by auto
  qed
  then show "snd c = None \<Longrightarrow> con_active (model w') c = con_active (model w) c"
    and "snd v = None \<Longrightarrow> var_fixed (model w') v = var_fixed (model w) v"
    and "(st, ms) \<in> set (solves w') \<Longrightarrow> (st, ms) \<in> set (solves w) \<or>
           ((snd c = None \<longrightarrow> con_active ms c = con_active (model w) c) \<and>
            (snd v = None \<longrightarrow> var_fixed ms v = var_fixed (model w) v))"
    by blast+
qed

text \<open>The ways the preparation can end.\<close>

lemma solve_initial_conditions_cases:
  assumes "solve_initial_conditions solver dof ignore_dof time w = (r, w1)"
  shows "(\<not> ignore_dof \<and> dof (model w) \<noteq> 0 \<and> r = Inl initial_dof_error \<and> w1 = log_error dof_message w) \<or>
         ((ignore_dof \<or> dof (model w) = 0) \<and> r = Inl IndexError \<and> w1 = w) \<or>
         ((ignore_dof \<or> dof (model w) = 0) \<and>
          (\<exists>m1. solves w1 = solves w @ [(ConsistentIC, m1)]) \<and>
          (r = Inl initial_solve_error \<or> r = Inl KeyError \<or> (\<exists>loc. r = Inr loc)))"
proof (cases "\<not> ignore_dof \<and> dof (model w) \<noteq> 0")
  case True
  with assms show ?thesis by (simp add: solve_initial_conditions_def)
next
  case False
  note dof = False
  show ?thesis
  proof (cases time)
    case Nil
    with assms dof show ?thesis by (simp add: solve_initial_conditions_def time_first_def)
  next
    case (Cons t0 rest)
    obtain deact m1 where d: "deactivate_model_at (model w) (remove1 t0 time) = (deact, m1)"
      by (cases "deactivate_model_at (model w) (remove1 t0 time)")
    let ?w1 = "log_info ''Model is inactive except at t=0. Solving for consistent initial conditions.'' (w\<lparr>model := m1\<rparr>)"
    obtain tc w2 where c: "call_solver solver ConsistentIC ?w1 = (tc, w2)"
      by (cases "call_solver solver ConsistentIC ?w1")
    have s2: "solves w2 = solves w @ [(ConsistentIC, m1)]"
      using c by (auto simp: call_solver_def split: prod.splits)
    show ?thesis
    proof (cases "tc = optimal")
      case False
      with assms dof Cons d c have "r = Inl initial_solve_error"
        "w1 = log_error ''Failed to solve for consistent initial conditions'' w2"
        by (simp_all add: solve_initial_conditions_def time_first_def Let_def)
      with dof s2 show ?thesis by auto
    next
      case True
      let ?w3 = "log_info ''Successfully solved for consistent initial conditions'' w2"
      obtain deact0 m4 where d0: "deactivate_model_at (model ?w3) [t0] = (deact0, m4)"
        by (cases "deactivate_model_at (model ?w3) [t0]")
      show ?thesis
      proof (cases "deact0 t0")
        case None
        with assms dof Cons d c True d0 have "r = Inl KeyError" "w1 = ?w3\<lparr>model := m4\<rparr>"
          by (simp_all add: solve_initial_conditions_def time_first_def Let_def)
        with dof s2 show ?thesis by auto
      next
        case (Some comps0)
        with assms dof Cons d c True d0 have "(\<exists>loc. r = Inr loc) \<and> solves w1 = solves w2"
          by (auto simp: solve_initial_conditions_def time_first_def Let_def split: prod.splits)
        with dof s2 show ?thesis by auto
      qed
    qed
  qed
qed

text \<open>
  The solver calls of the loop, in order: each is for an index of the list, each is made
  on a flowsheet that passed the degrees-of-freedom check, and a call that does not
  terminate optimally is the last one and ends the loop with the solve error.
\<close>

lemma element_loop_solves:
  assumes "for_each (element_step solver dof ignore_dof time ncp nfe loc) is w = (r, w')"
    and "sorted is"
  shows "\<exists>new. solves w' = solves w @ new \<and>
     (\<forall>st ms. (st, ms) \<in> set new \<longrightarrow> (\<exists>j. j \<in> set is \<and> st = Element j) \<and> (ignore_dof \<or> dof ms = 0)) \<and>
     (\<forall>i mi. (Element i, mi) \<in> set new \<and> fst (solver mi) \<noteq> optimal \<longrightarrow>
        r = Inl element_solve_error \<and> init_log w' \<noteq> [] \<and>
        last (init_log w') = LogError (failed_message i) \<and>
        (\<forall>j mj. (Element j, mj) \<in> set new \<longrightarrow> j \<le> i)) \<and>
     (r = Inr () \<or> r = Inl IndexError \<or> r = Inl KeyError \<or> r = Inl element_solve_error \<or>
      (\<not> ignore_dof \<and> r = Inl element_dof_error))"
  using assms
proof (induction "is" arbitrary: w)
  case Nil
  then show ?case by simp
next
  case (Cons x xs)
  obtain r1 w1 where s: "element_step solver dof ignore_dof time ncp nfe loc x w = (r1, w1)"
    by (cases "element_step solver dof ignore_dof time ncp nfe loc x w")
  note sol = element_step_solves[OF s]
  show ?case
  proof (cases r1)
    case (Inl e)
    with s Cons.prems(1) have rw: "r = r1" "w' = w1" by simp_all
    from sol consider
        (quiet) "solves w1 = solves w"
          "r1 = Inl IndexError \<or> r1 = Inl KeyError \<or> (\<not> ignore_dof \<and> r1 = Inl element_dof_error)"
      | (called) m2 where "solves w1 = solves w @ [(Element x, m2)]" "ignore_dof \<or> dof m2 = 0"
          "fst (solver m2) = optimal \<and> (r1 = Inr () \<or> r1 = Inl KeyError) \<or>
           fst (solver m2) \<noteq> optimal \<and> r1 = Inl element_solve_error \<and>
           init_log w1 \<noteq> [] \<and> last (init_log w1) = LogError (failed_message x)"
      by blast
    then show ?thesis
    proof cases
      case quiet
      then show ?thesis unfolding rw by (intro exI[of _ "[]"]) auto
    next
      case called
      then show ?thesis unfolding rw by (intro exI[of _ "[(Element x, m2)]"]) auto
    qed
  next
    case (Inr u)
    with s Cons.prems(1) have rest: "for_each (element_step solver dof ignore_dof time ncp nfe loc) xs w1 = (r, w')"
      by simp
    from sol Inr obtain m2 where m2: "solves w1 = solves w @ [(Element x, m2)]"
      "ignore_dof \<or> dof m2 = 0" "fst (solver m2) = optimal"
      by auto
    have sx: "sorted xs" and le: "\<And>j. j \<in> set xs \<Longrightarrow> x \<le> j"
      using Cons.prems(2) by auto
    from Cons.IH[OF rest sx] obtain new where new: "solves w' = solves w1 @ new"
      and a: "\<forall>st ms. (st, ms) \<in> set new \<longrightarrow> (\<exists>j. j \<in> set xs \<and> st = Element j) \<and> (ignore_dof \<or> dof ms = 0)"
      and b: "\<forall>i mi. (Element i, mi) \<in> set new \<and> fst (solver mi) \<noteq> optimal \<longrightarrow>
        r = Inl element_solve_error \<and> init_log w' \<noteq> [] \<and>
        last (init_log w') = LogError (failed_message i) \<and>
        (\<forall>j mj. (Element j, mj) \<in> set new \<longrightarrow> j \<le> i)"
      and c: "r = Inr () \<or> r = Inl IndexError \<or> r = Inl KeyError \<or> r = Inl element_solve_error \<or>
      (\<not> ignore_dof \<and> r = Inl element_dof_error)"
      by blast
    let ?new = "(Element x, m2) # new"
    have 1: "solves w' = solves w @ ?new" using new m2(1) by simp
    have 2: "\<forall>st ms. (st, ms) \<in> set ?new \<longrightarrow>
               (\<exists>j. j \<in> set (x # xs) \<and> st = Element j) \<and> (ignore_dof \<or> dof ms = 0)"
      using a m2(2) by auto
    have 3: "\<forall>i mi. (Element i, mi) \<in> set ?new \<and> fst (solver mi) \<noteq> optimal \<longrightarrow>
        r = Inl element_solve_error \<and> init_log w' \<noteq> [] \<and>
        last (init_log w') = LogError (failed_message i) \<and>
        (\<forall>j mj. (Element j, mj) \<in> set ?new \<longrightarrow> j \<le> i)"
    proof (intro allI impI)
      fix i mi
      assume h: "(Element i, mi) \<in> set ?new \<and> fst (solver mi) \<noteq> optimal"
      with m2(3) have in_new: "(Element i, mi) \<in> set new" by auto
      with b h have r: "r = Inl element_solve_error \<and> init_log w' \<noteq> [] \<and>
        last (init_log w') = LogError (failed_message i)"
        and all: "\<forall>j mj. (Element j, mj) \<in> set new \<longrightarrow> j \<le> i" by blast+
      from a in_new have "i \<in> set xs" by auto
      then have "x \<le> i" by (rule le)
      with all have "\<forall>j mj. (Element j, mj) \<in> set ?new \<longrightarrow> j \<le> i" by auto
      with r show "r = Inl element_solve_error \<and> init_log w' \<noteq> [] \<and>
        last (init_log w') = LogError (failed_message i) \<and>
        (\<forall>j mj. (Element j, mj) \<in> set ?new \<longrightarrow> j \<le> i)" by blast
    qed
    from 1 2 3 c show ?thesis by blast
  qed
qed

text \<open>The ways a run can end.\<close>

lemma initialize_cases [consumes 0, case_names arguments preparation loop restore]:
  obtains
    e where "check_arguments fs time = Inl e"
      "initialize_by_time_element solver dof ignore_dof fs time m = (Inl e, \<lparr>model = m, solves = [], init_log = []\<rparr>)"
  | pts nfe ncp e w1 where "check_arguments fs time = Inr (pts, nfe, ncp)"
      "solve_initial_conditions solver dof ignore_dof pts \<lparr>model = m, solves = [], init_log = []\<rparr> = (Inl e, w1)"
      "initialize_by_time_element solver dof ignore_dof fs time m = (Inl e, w1)"
  | pts nfe ncp loc w1 e w2 where "check_arguments fs time = Inr (pts, nfe, ncp)"
      "solve_initial_conditions solver dof ignore_dof pts \<lparr>model = m, solves = [], init_log = []\<rparr> = (Inr loc, w1)"
      "for_each (element_step solver dof ignore_dof pts ncp nfe loc) [1..<nfe + 1] w1 = (Inl e, w2)"
      "initialize_by_time_element solver dof ignore_dof fs time m = (Inl e, w2)"
  | pts nfe ncp loc w1 w2 where "check_arguments fs time = Inr (pts, nfe, ncp)"
      "solve_initial_conditions solver dof ignore_dof pts \<lparr>model = m, solves = [], init_log = []\<rparr> = (Inr loc, w1)"
      "for_each (element_step solver dof ignore_dof pts ncp nfe loc) [1..<nfe + 1] w1 = (Inr (), w2)"
      "initialize_by_time_element solver dof ignore_dof fs time m = restore_model pts loc w2"
proof (cases "check_arguments fs time")
  case (Inl e)
  then have "initialize_by_time_element solver dof ignore_dof fs time m = (Inl e, \<lparr>model = m, solves = [], init_log = []\<rparr>)"
    by (simp add: initialize_by_time_element_def)
  with Inl show thesis by (rule that(1))
next
  case (Inr p)
  obtain pts nfe ncp where ca: "check_arguments fs time = Inr (pts, nfe, ncp)"
    using Inr by (cases p) auto
  let ?w = "\<lparr>model = m, solves = [], init_log = []\<rparr>"
  obtain r1 w1 where s1: "solve_initial_conditions solver dof ignore_dof pts ?w = (r1, w1)"
    by (cases "solve_initial_conditions solver dof ignore_dof pts ?w")
  show thesis
  proof (cases r1)
    case (Inl e)
    with ca s1 have "initialize_by_time_element solver dof ignore_dof fs time m = (Inl e, w1)"
      by (simp add: initialize_by_time_element_def)
    with ca s1[unfolded Inl] show thesis by (rule that(2))
  next
    case (Inr loc)
    note s1' = s1[unfolded Inr]
    obtain r2 w2 where s2: "for_each (element_step solver dof ignore_dof pts ncp nfe loc) [1..<nfe + 1] w1 = (r2, w2)"
      by (cases "for_each (element_step solver dof ignore_dof pts ncp nfe loc) [1..<nfe + 1] w1")
    show thesis
    proof (cases r2)
      case (Inl e)
      with ca s1' s2 have "initialize_by_time_element solver dof ignore_dof fs time m = (Inl e, w2)"
        by (simp add: initialize_by_time_element_def)
      with ca s1' s2[unfolded Inl] show thesis by (rule that(3))
    next
      case (Inr u)
      with ca s1' s2 have "initialize_by_time_element solver dof ignore_dof fs time m = restore_model pts loc w2"
        by (simp add: initialize_by_time_element_def)
      with ca s1' s2[unfolded Inr] show thesis by (intro that(4)) auto
    qed
  qed
qed

lemma restore_model_cases:
  assumes "restore_model time loc w = (r, w')"
  shows "solves w' = solves w" and "r = Inr () \<or> r = Inl KeyError"
    and "init_log w' = init_log w \<or> (\<exists>msg. init_log w' = init_log w @ [LogInfo msg] \<and> r = Inr ())"
proof -
  obtain r1 m1 where s1: "reactivate_at (deactivated loc) (was_originally_active loc) time (model w) = (r1, m1)"
    by (cases "reactivate_at (deactivated loc) (was_originally_active loc) time (model w)")
  have "solves w' = solves w \<and> (r = Inr () \<or> r = Inl KeyError) \<and>
    (init_log w' = init_log w \<or> (\<exists>msg. init_log w' = init_log w @ [LogInfo msg] \<and> r = Inr ()))"
  proof (cases r1)
    case (Inl e)
    with reactivate_at_error s1 have "e = KeyError" by blast
    with assms s1 Inl show ?thesis by (auto simp: restore_model_def)
  next
    case (Inr u)
    with assms s1 show ?thesis by (auto simp: restore_model_def)
  qed
  then show "solves w' = solves w" and "r = Inr () \<or> r = Inl KeyError"
    and "init_log w' = init_log w \<or> (\<exists>msg. init_log w' = init_log w @ [LogInfo msg] \<and> r = Inr ())"
    by blast+
qed

lemma sorted_element_indices: "sorted [1..<nfe + 1]"
  by (rule sorted_upt)

text \<open>The solver calls of a whole run.\<close>

lemma initialize_solves:
  fixes solver dof ignore_dof fs time m
  defines "run \<equiv> initialize_by_time_element solver dof ignore_dof fs time m"
  shows "solves (snd run) = [] \<or>
    (\<exists>m1 new. solves (snd run) = (ConsistentIC, m1) # new \<and> (ignore_dof \<or> dof m = 0) \<and>
       (\<forall>st ms. (st, ms) \<in> set new \<longrightarrow> (\<exists>j. st = Element j) \<and> (ignore_dof \<or> dof ms = 0)) \<and>
       (\<forall>i mi. (Element i, mi) \<in> set new \<and> fst (solver mi) \<noteq> optimal \<longrightarrow>
          fst run = Inl element_solve_error \<and> init_log (snd run) \<noteq> [] \<and>
          last (init_log (snd run)) = LogError (failed_message i) \<and>
          (\<forall>j mj. (Element j, mj) \<in> set new \<longrightarrow> j \<le> i)))"
proof (cases rule: initialize_cases[of fs time solver dof ignore_dof m])
  case (arguments e)
  then show ?thesis by (simp add: run_def)
next
  case (preparation pts nfe ncp e w1)
  from solve_initial_conditions_cases[OF preparation(2)] preparation(3)
  show ?thesis by (auto simp: run_def)
next
  case (loop pts nfe ncp loc w1 e w2)
  note ic = solve_initial_conditions_done[OF loop(2), simplified]
  from ic(10) obtain m1 where m1: "solves w1 = [(ConsistentIC, m1)]" by auto
  from element_loop_solves[OF loop(3) sorted_element_indices] obtain new where
    new: "solves w2 = solves w1 @ new"
    and a: "\<forall>st ms. (st, ms) \<in> set new \<longrightarrow> (\<exists>j. j \<in> set [1..<nfe + 1] \<and> st = Element j) \<and> (ignore_dof \<or> dof ms = 0)"
    and b: "\<forall>i mi. (Element i, mi) \<in> set new \<and> fst (solver mi) \<noteq> optimal \<longrightarrow>
        Inl e = Inl element_solve_error \<and> init_log w2 \<noteq> [] \<and>
        last (init_log w2) = LogError (failed_message i) \<and>
        (\<forall>j mj. (Element j, mj) \<in> set new \<longrightarrow> j \<le> i)"
    by blast
  have r: "fst run = Inl e" "snd run = w2" by (simp_all add: run_def loop(4))
  have "solves (snd run) = (ConsistentIC, m1) # new" by (simp add: r new m1)
  moreover have "\<forall>st ms. (st, ms) \<in> set new \<longrightarrow> (\<exists>j. st = Element j) \<and> (ignore_dof \<or> dof ms = 0)"
    using a by blast
  ultimately show ?thesis using b ic(11) unfolding r by blast
next
  case (restore pts nfe ncp loc w1 w2)
  note ic = solve_initial_conditions_done[OF restore(2), simplified]
  from ic(10) obtain m1 where m1: "solves w1 = [(ConsistentIC, m1)]" by auto
  from element_loop_solves[OF restore(3) sorted_element_indices] obtain new where
    new: "solves w2 = solves w1 @ new"
    and a: "\<forall>st ms. (st, ms) \<in> set new \<longrightarrow> (\<exists>j. j \<in> set [1..<nfe + 1] \<and> st = Element j) \<and> (ignore_dof \<or> dof ms = 0)"
    and b: "\<forall>i mi. (Element i, mi) \<in> set new \<and> fst (solver mi) \<noteq> optimal \<longrightarrow>
        (Inr () :: exn + unit) = Inl element_solve_error \<and> init_log w2 \<noteq> [] \<and>
        last (init_log w2) = LogError (failed_message i) \<and>
        (\<forall>j mj. (Element j, mj) \<in> set new \<longrightarrow> j \<le> i)"
    by blast
  have b': "\<forall>i mi. (Element i, mi) \<in> set new \<longrightarrow> fst (solver mi) = optimal"
    using b by auto
  obtain r3 w3 where s3: "restore_model pts loc w2 = (r3, w3)" by (cases "restore_model pts loc w2")
  have r: "snd run = w3" by (simp add: run_def restore(4) s3)
  have "solves (snd run) = (ConsistentIC, m1) # new"
    using restore_model_cases(1)[OF s3] by (simp add: r new m1)
  moreover have "\<forall>st ms. (st, ms) \<in> set new \<longrightarrow> (\<exists>j. st = Element j) \<and> (ignore_dof \<or> dof ms = 0)"
    using a by blast
  ultimately show ?thesis using b' ic(11) by blast
qed

lemma check_arguments_error:
  "check_arguments fs time = Inl e \<Longrightarrow> e \<noteq> initial_dof_error \<and> e \<noteq> element_dof_error"
  by (auto simp: check_arguments_def scheme_ncp_def initial_dof_error_def element_dof_error_def
      split: argument.splits option.splits if_splits sum.splits)

lemma ignore_dof_independent:
  "initialize_by_time_element solver dof' True fs time m =
   initialize_by_time_element solver dof True fs time m"
proof -
  have a: "solve_initial_conditions solver dof' True = solve_initial_conditions solver dof True"
    by (intro ext) (simp add: solve_initial_conditions_def)
  have c: "solve_element solver dof' True = solve_element solver dof True"
    by (intro ext) (simp add: solve_element_def)
  have b: "element_step solver dof' True = element_step solver dof True"
    unfolding element_step_def c by (rule refl)
  show ?thesis unfolding initialize_by_time_element_def a b by (rule refl)
qed

lemma element_step_dof_gate:
  assumes "element_points time ncp i = Inr (t_prev, fe)"
    and "prepare_element loc t_prev fe (model w) = (Inr was_fixed, m2)"
    and "\<not> ignore_dof" and "dof m2 \<noteq> 0"
  shows "fst (element_step solver dof ignore_dof time ncp nfe loc i w) = Inl element_dof_error"
    and "solves (snd (element_step solver dof ignore_dof time ncp nfe loc i w)) = solves w"
  using assms by (simp_all add: element_step_def Let_def solve_element_eq)

text \<open>
  Through any number of passes, completed or not, the flags of the components not
  indexed by time stay as the preparation left them, in the flowsheet and in every
  flowsheet handed to the solver.
\<close>

lemma element_loop_unindexed:
  assumes loop: "for_each (element_step solver dof ignore_dof time ncp nfe loc) ks w = (r, w')"
    and H: "\<forall>t cs c. deactivated loc t = Some cs \<and> c \<in> set cs \<longrightarrow> snd c \<noteq> None"
  shows "(\<forall>c. snd c = None \<longrightarrow> con_active (model w') c = con_active (model w) c) \<and>
         (\<forall>v. snd v = None \<longrightarrow> var_fixed (model w') v = var_fixed (model w) v) \<and>
         (\<forall>st ms. (st, ms) \<in> set (solves w') \<longrightarrow> (st, ms) \<in> set (solves w) \<or>
            ((\<forall>c. snd c = None \<longrightarrow> con_active ms c = con_active (model w) c) \<and>
             (\<forall>v. snd v = None \<longrightarrow> var_fixed ms v = var_fixed (model w) v)))"
    (is "?I w'")
proof (rule for_each_invariant[OF loop])
  show "?I w" by simp
next
  fix x t r' t'
  assume I: "?I t" and step: "element_step solver dof ignore_dof time ncp nfe loc x t = (r', t')"
  note I1 = I[THEN conjunct1, rule_format]
  note I2 = I[THEN conjunct2, THEN conjunct1, rule_format]
  note I3 = I[THEN conjunct2, THEN conjunct2, rule_format]
  note u1 = element_step_unindexed(1)[OF step H]
  note u2 = element_step_unindexed(2)[OF step H]
  note u3 = element_step_unindexed(3)[OF step H]
  show "?I t'"
  proof (intro conjI allI impI)
    fix c :: "'a comp" assume "snd c = None"
    then show "con_active (model t') c = con_active (model w) c" using u1[where c = c] I1[where c = c] by simp
  next
    fix v :: "'a comp" assume "snd v = None"
    then show "var_fixed (model t') v = var_fixed (model w) v" using u2[where v = v] I2[where v = v] by simp
  next
    fix st ms assume m: "(st, ms) \<in> set (solves t')"
    show "(st, ms) \<in> set (solves w) \<or>
            ((\<forall>c. snd c = None \<longrightarrow> con_active ms c = con_active (model w) c) \<and>
             (\<forall>v. snd v = None \<longrightarrow> var_fixed ms v = var_fixed (model w) v))"
    proof (cases "(st, ms) \<in> set (solves t)")
      case True
      then show ?thesis by (rule I3)
    next
      case False
      have "(\<forall>c. snd c = None \<longrightarrow> con_active ms c = con_active (model w) c) \<and>
            (\<forall>v. snd v = None \<longrightarrow> var_fixed ms v = var_fixed (model w) v)"
      proof (intro conjI allI impI)
        fix c :: "'a comp" assume c: "snd c = None"
        from u3[OF m, where c = c and v = c] False c have "con_active ms c = con_active (model t) c" by simp
        with I1[OF c] show "con_active ms c = con_active (model w) c" by simp
      next
        fix v :: "'a comp" assume v: "snd v = None"
        from u3[OF m, where c = v and v = v] False v have "var_fixed ms v = var_fixed (model t) v" by simp
        with I2[OF v] show "var_fixed ms v = var_fixed (model w) v" by simp
      qed
      then show ?thesis by (rule disjI2)
    qed
  qed
qed

text \<open>
  The first loop of the fixing step tests each derivative's own value: a derivative
  without a value that is not also listed as a state variable keeps its flag.
\<close>

lemma derivative_without_value_not_fixed:
  assumes "var_value fs v = None" and "\<not> var_fixed fs v" and "v \<notin> set dvars"
  shows "\<not> var_fixed (snd (fix_initial_conditions derivs dvars fs)) v"
proof -
  let ?I = "\<lambda>s :: ('a comp \<rightharpoonup> bool) \<times> 'a flowsheet.
              var_value (snd s) = var_value fs \<and> \<not> var_fixed (snd s) v"
  have one: "?I (fold record_and_fix_deriv derivs (Map.empty, fs))"
  proof (rule fold_invariant)
    show "?I (Map.empty, fs)" using assms(2) by simp
  next
    fix x and s :: "('a comp \<rightharpoonup> bool) \<times> 'a flowsheet" assume "?I s"
    then show "?I (record_and_fix_deriv x s)"
      using assms(1) by (cases s) (auto simp: record_and_fix_deriv_def fix_var_def)
  qed
  have "?I (fold (record_and_fix_dvar (last derivs)) dvars (fold record_and_fix_deriv derivs (Map.empty, fs)))"
  proof (rule fold_invariant)
    show "?I (fold record_and_fix_deriv derivs (Map.empty, fs))" by (rule one)
  next
    fix x and s :: "('a comp \<rightharpoonup> bool) \<times> 'a flowsheet" assume "x \<in> set dvars" and "?I s"
    then show "?I (record_and_fix_dvar (last derivs) x s)"
      using assms(3) by (cases s) (auto simp: record_and_fix_dvar_def fix_var_def)
  qed
  then show ?thesis by (simp add: fix_initial_conditions_def)
qed


subsection \<open>The copy between two ports\<close>

lemma port_address_member:
  assumes "map_of p v = Some c" and "map_of (component_data c) i = Some a"
  shows "a \<in> port_addresses p"
proof -
  from assms(1) have "(v, c) \<in> set p" by (rule map_of_SomeD)
  moreover from assms(2) have "(i, a) \<in> set (component_data c)" by (rule map_of_SomeD)
  ultimately show ?thesis
    by (force simp: port_addresses_def)
qed

text \<open>
  What every step of the copy keeps true of the heap \<open>h\<close>, relative to the heap \<open>h0\<close> at
  the start: no \<^verbatim>\<open>fixed\<close> flag differs, no fixed object differs, and no object outside
  the destination port differs.
\<close>

lemma copy_index_keeps:
  assumes "copy_index value_dest v ia h = (r, h')"
    and "\<forall>a. vd_fixed (h a) = vd_fixed (h0 a)"
    and "\<forall>a. vd_fixed (h0 a) \<longrightarrow> h a = h0 a"
    and "\<forall>a. a \<notin> port_addresses value_dest \<longrightarrow> h a = h0 a"
  shows "(\<forall>a. vd_fixed (h' a) = vd_fixed (h0 a)) \<and> (\<forall>a. vd_fixed (h0 a) \<longrightarrow> h' a = h0 a) \<and>
         (\<forall>a. a \<notin> port_addresses value_dest \<longrightarrow> h' a = h0 a)"
proof -
  obtain i a_source where ia: "ia = (i, a_source)" by (cases ia)
  show ?thesis
  proof (cases "map_of value_dest v")
    case None
    with assms(1) ia have "h' = h" by (simp add: copy_index_def)
    with assms(2,3,4) show ?thesis by simp
  next
    case (Some c)
    show ?thesis
    proof (cases c)
      case (OtherComponent d)
      with assms(1) ia Some have "h' = h" by (simp add: copy_index_def)
      with assms(2,3,4) show ?thesis by simp
    next
      case (VarComponent dest_data)
      show ?thesis
      proof (cases "map_of dest_data i")
        case None
        with assms(1) ia Some VarComponent have "h' = h" by (simp add: copy_index_def)
        with assms(2,3,4) show ?thesis by simp
      next
        case (Some a_dest)
        have mem: "a_dest \<in> port_addresses value_dest"
          using \<open>map_of value_dest v = Some c\<close> VarComponent Some
          by (intro port_address_member[of value_dest v c i]) (simp_all add: component_data_def)
        show ?thesis
        proof (cases "vd_fixed (h a_dest)")
          case True
          with assms(1) ia \<open>map_of value_dest v = Some c\<close> VarComponent Some have "h' = h"
            by (simp add: copy_index_def)
          with assms(2,3,4) show ?thesis by simp
        next
          case False
          with assms(1) ia \<open>map_of value_dest v = Some c\<close> VarComponent Some
          have h': "h' = h(a_dest := (h a_dest)\<lparr>vd_value := vd_value (h a_source)\<rparr>)"
            by (simp add: copy_index_def)
          from False assms(2) have "\<not> vd_fixed (h0 a_dest)" by simp
          with mem assms(2,3,4) show ?thesis by (simp add: h')
        qed
      qed
    qed
  qed
qed

lemma copy_port_keeps:
  assumes "copy_port value_source value_dest h = (r, h')"
  shows "(\<forall>a. vd_fixed (h' a) = vd_fixed (h a)) \<and> (\<forall>a. vd_fixed (h a) \<longrightarrow> h' a = h a) \<and>
         (\<forall>a. a \<notin> port_addresses value_dest \<longrightarrow> h' a = h a)"
    (is "?I h'")
proof (rule for_each_invariant[OF assms[unfolded copy_port_def]])
  show "?I h" by simp
next
  fix vc t r' t'
  assume I: "?I t"
    and inner: "for_each (copy_index value_dest (fst vc)) (component_data (snd vc)) t = (r', t')"
  show "?I t'"
  proof (rule for_each_invariant[OF inner])
    show "?I t" by (rule I)
  next
    fix ia u r'' u'
    assume "?I u" and "copy_index value_dest (fst vc) ia u = (r'', u')"
    then show "?I u'" using copy_index_keeps[of value_dest "fst vc" ia u r'' u' h] by blast
  qed
qed


subsection \<open>The temporary block of \<^verbatim>\<open>solve_indexed_blocks\<close>\<close>

text \<open>
  C9: \<^verbatim>\<open>solve_indexed_blocks\<close> leaves the three tables of the temporary block empty on
  every exit path: whatever the solver does (return a result or raise, after mutating
  the block or not), whether a member of \<^verbatim>\<open>blocks\<close> is not a Block, and whether adding
  a block to the tables raises, the block the function leaves behind has
  \<^verbatim>\<open>_decl = {}\<close>, \<^verbatim>\<open>_decl_order = []\<close> and \<^verbatim>\<open>_ctypes = {}\<close>.
\<close>

theorem solve_indexed_blocks_releases:
  "decl (snd (solve_indexed_blocks solve add_raises blocks)) = Map.empty \<and>
   decl_order (snd (solve_indexed_blocks solve add_raises blocks)) = [] \<and>
   ctypes (snd (solve_indexed_blocks solve add_raises blocks)) = None"
  by (simp add: solve_indexed_blocks_def try_finally_def clean_up_def split: prod.splits)


subsection \<open>The points of a finite element\<close>

lemma time_points_in_range:
  "\<forall>k \<in> set ks. 1 \<le> k \<and> k \<le> length ps \<Longrightarrow>
   time_points ps ks = Inr (map (\<lambda>k. ps ! (k - 1)) ks)"
  by (induction ks) (auto simp: time_at_def)

lemma map_nth_upt_drop_take:
  assumes le: "a + n \<le> length ps"
  shows "map (\<lambda>k. ps ! (k - 1)) [a + 1 ..< a + 1 + n] = take n (drop a ps)"
proof -
  have "length (map (\<lambda>k. ps ! (k - 1)) [a + 1 ..< a + 1 + n]) = length (take n (drop a ps))"
    using le by simp
  moreover have "\<And>j. j < n \<Longrightarrow>
      map (\<lambda>k. ps ! (k - 1)) [a + 1 ..< a + 1 + n] ! j = take n (drop a ps) ! j"
    using le by (simp del: upt_Suc)
  ultimately show ?thesis
    by (intro nth_equalityI) auto
qed

text \<open>
  C5: for a finite element \<open>i \<ge> 1\<close> that lies within the time set, the initial point is
  \<^verbatim>\<open>time[(i-1)*ncp + 1]\<close> and the solved points are \<^verbatim>\<open>time[(i-1)*ncp + 2]\<close> through
  \<^verbatim>\<open>time[i*ncp + 1]\<close> inclusive. With the list of points counted from 0, as HOL does,
  \<^verbatim>\<open>time[k]\<close> is \<open>time ! (k - 1)\<close>: the initial point is at position \<open>(i-1)*ncp\<close> and the
  solved points are the \<open>ncp\<close> points that follow it. For \<open>nfe = 4\<close>, \<open>ncp = 2\<close> and
  \<open>i = 2\<close> these are \<^verbatim>\<open>time[3]\<close> and \<^verbatim>\<open>time[4..5]\<close>.
\<close>

theorem element_points_layout:
  assumes "1 \<le> i" and "i * ncp + 1 \<le> length time"
  shows "element_points time ncp i =
           Inr (time ! ((i - 1) * ncp), take ncp (drop ((i - 1) * ncp + 1) time))"
proof -
  obtain j where i: "i = Suc j" using assms(1) by (cases i) auto
  have len: "j * ncp + ncp + 1 \<le> length time" using assms(2) i by (simp add: algebra_simps)
  have tp: "time_at time (j * ncp + 1) = Inr (time ! (j * ncp))"
    using len by (simp add: time_at_def)
  have "\<forall>k \<in> set [j * ncp + 2 ..< Suc j * ncp + 2]. 1 \<le> k \<and> k \<le> length time"
    using len by auto
  then have "time_points time [j * ncp + 2 ..< Suc j * ncp + 2] =
               Inr (map (\<lambda>k. time ! (k - 1)) [j * ncp + 2 ..< Suc j * ncp + 2])"
    by (rule time_points_in_range)
  moreover have "map (\<lambda>k. time ! (k - 1)) [(j * ncp + 1) + 1 ..< (j * ncp + 1) + 1 + ncp] =
                   take ncp (drop (j * ncp + 1) time)"
    using len by (intro map_nth_upt_drop_take) simp
  moreover have "[j * ncp + 2 ..< Suc j * ncp + 2] = [(j * ncp + 1) + 1 ..< (j * ncp + 1) + 1 + ncp]"
    by (simp add: algebra_simps)
  ultimately have "time_points time [j * ncp + 2 ..< Suc j * ncp + 2] =
                     Inr (take ncp (drop (j * ncp + 1) time))"
    by simp
  with tp show ?thesis
    by (simp add: element_points_def i)
qed

text \<open>
  The instance of the specification: nine points (\<open>nfe = 4\<close>, \<open>ncp = 2\<close>), element 2.
  The third point is \<open>12\<close>, the fourth and fifth are \<open>13\<close> and \<open>14\<close>.
\<close>

theorem element_points_layout_witness:
  "(1::nat) \<le> 2 \<and> 2 * 2 + 1 \<le> length [10, 11, 12, 13, 14, 15, 16, 17, 18 :: nat] \<and>
   element_points [10, 11, 12, 13, 14, 15, 16, 17, 18 :: nat] 2 2 = Inr (12, [13, 14])"
  using element_points_layout [of 2 2 "[10, 11, 12, 13, 14, 15, 16, 17, 18 :: nat]"]
  by simp


subsection \<open>Restoration of the \<^verbatim>\<open>active\<close> flags\<close>

text \<open>
  C2: a run that reaches the end leaves every constraint's \<^verbatim>\<open>active\<close> flag as it was on
  entry. The snapshot of line 286, the deactivations of lines 292, 305 and 310, the
  activations and deactivations of every pass of the loop and the reactivation of lines
  405--411 together reproduce the original flag of every constraint, whatever the
  solver and the discretization.
\<close>

theorem activity_round_trip:
  assumes "fst (initialize_by_time_element solver dof ignore_dof fs time m) = Inr ()"
  shows "con_active (model (snd (initialize_by_time_element solver dof ignore_dof fs time m))) = con_active m"
proof -
  let ?w' = "snd (initialize_by_time_element solver dof ignore_dof fs time m)"
  from assms obtain cs :: "'a continuous_set" and info :: disc_info and ncp loc w1 w2 where
    ic: "solve_initial_conditions solver dof ignore_dof (points cs) \<lparr>model = m, solves = [], init_log = []\<rparr> = (Inr loc, w1)"
    and loop: "for_each (element_step solver dof ignore_dof (points cs) ncp (di_nfe info) loc) [1..<di_nfe info + 1] w1 = (Inr (), w2)"
    and fin: "restore_model (points cs) loc w2 = (Inr (), ?w')"
    by (rule initialize_done)
  note b = solve_initial_conditions_done[OF ic, simplified]
  have base: "\<And>t cs' c. deactivated loc t = Some cs' \<Longrightarrow> c \<in> set cs' \<Longrightarrow> \<not> con_active (model w1) c"
    by (auto simp: b(2,5) constraints_at_def split: if_splits)
  have a2: "con_active (model w2) = con_active (model w1)"
    using loop base by (rule element_loop_active)
  have "con_active (model ?w') = (\<lambda>c. c \<in> set (con_unindexed_by_time loc) \<or> con_active (model w2) c \<or>
            (\<exists>t cs'. t \<in> set (points cs) \<and> deactivated loc t = Some cs' \<and> c \<in> set cs' \<and>
                     was_originally_active loc c = Some True))"
    by (subst restore_model_done(1)[OF fin]) simp
  also have "\<dots> = con_active m"
    by (intro ext) (auto simp: a2 b(1,2,3,5) constraints_at_def get_activity_dict_def)
  finally show ?thesis .
qed

text \<open>The run of the example flowsheet reaches the end.\<close>

lemma example_run_done:
  "fst (initialize_by_time_element example_solver (\<lambda>m. 0) False FlowsheetBlock
          (ContinuousSet example_time) example_flowsheet) = Inr ()"
  by code_simp

theorem activity_round_trip_witness:
  "fst (initialize_by_time_element example_solver (\<lambda>m. 0) False FlowsheetBlock
          (ContinuousSet example_time) example_flowsheet) = Inr () \<and>
   con_active (model (snd (initialize_by_time_element example_solver (\<lambda>m. 0) False FlowsheetBlock
          (ContinuousSet example_time) example_flowsheet))) = con_active example_flowsheet"
  using activity_round_trip[OF example_run_done] example_run_done by simp


subsection \<open>Restoration of the \<^verbatim>\<open>fixed\<close> flags of a pass\<close>

text \<open>
  What the unfixing loop achieves. When the pass for a finite element completes, the
  \<^verbatim>\<open>fixed\<close> flag of every derivative and every state variable at the element's initial
  point equals the entry that \<^verbatim>\<open>was_originally_fixed\<close> holds for it when the fixing step
  ends. When no variable is listed twice at that point, that entry is the flag on entry
  to the pass, and the pass leaves these flags as it found them.
\<close>

lemma recorded_flags_restored:
  assumes "fst (element_step solver dof ignore_dof time ncp nfe loc i w) = Inr ()"
    and "element_points time ncp i = Inr (t_prev, fe)"
  shows "(\<exists>was_fixed. fst (prepare_element loc t_prev fe (model w)) = Inr was_fixed \<and>
           (\<forall>v \<in> set (get_derivatives_at (model w) t_prev) \<union> set (state_vars_at (model w) t_prev).
              was_fixed v = Some (var_fixed (model (snd (element_step solver dof ignore_dof time ncp nfe loc i w))) v))) \<and>
         (distinct (get_derivatives_at (model w) t_prev @ state_vars_at (model w) t_prev) \<longrightarrow>
           (\<forall>v \<in> set (get_derivatives_at (model w) t_prev) \<union> set (state_vars_at (model w) t_prev).
              var_fixed (model (snd (element_step solver dof ignore_dof time ncp nfe loc i w))) v =
              var_fixed (model w) v))"
proof -
  let ?w' = "snd (element_step solver dof ignore_dof time ncp nfe loc i w)"
  let ?S = "set (get_derivatives_at (model w) t_prev) \<union> set (state_vars_at (model w) t_prev)"
  have step: "element_step solver dof ignore_dof time ncp nfe loc i w = (Inr (), ?w')"
    using assms(1) by (cases "element_step solver dof ignore_dof time ncp nfe loc i w") simp
  from element_step_done[OF step] assms(2) obtain was_fixed m2 where
    pe: "prepare_element loc t_prev fe (model w) = (Inr was_fixed, m2)" and
    re: "release_element loc was_fixed t_prev fe (m2\<lparr>var_value := snd (solver m2)\<rparr>) = (Inr (), model ?w')"
    by auto
  from prepare_element_done[OF pe] obtain V F where
    m2: "m2 = (model w)\<lparr>con_active := (\<lambda>c. con_active (model w) c \<or>
            (\<exists>t cs. t \<in> set fe \<and> deactivated loc t = Some cs \<and> c \<in> set cs \<and>
                     was_originally_active loc c = Some True)),
          var_value := V, var_fixed := F\<rparr>"
    and F: "\<forall>v. was_fixed v = Some True \<longrightarrow> F v"
    and d: "dom was_fixed = ?S" by blast
  have g: "get_derivatives_at m2 t_prev = get_derivatives_at (model w) t_prev"
    "state_vars_at m2 t_prev = state_vars_at (model w) t_prev" "var_fixed m2 = F"
    by (simp_all add: get_derivatives_at_def state_vars_at_def) (simp_all add: m2)
  have fin: "var_fixed (model ?w') = (\<lambda>v. F v \<and> \<not> (v \<in> ?S \<and> was_fixed v = Some False))"
    by (subst release_element_done[OF re]) (simp add: g)
  have snap: "\<forall>v \<in> ?S. was_fixed v = Some (var_fixed (model ?w') v)"
  proof
    fix v assume v: "v \<in> ?S"
    with d obtain b where b: "was_fixed v = Some b" by blast
    show "was_fixed v = Some (var_fixed (model ?w') v)"
    proof (cases b)
      case True
      with b F[rule_format, of v] have "F v" by simp
      with b True show ?thesis by (simp add: fin)
    next
      case False
      with b v show ?thesis by (simp add: fin)
    qed
  qed
  with pe have A: "\<exists>was_fixed. fst (prepare_element loc t_prev fe (model w)) = Inr was_fixed \<and>
           (\<forall>v \<in> ?S. was_fixed v = Some (var_fixed (model ?w') v))"
    by auto
  have B: "distinct (get_derivatives_at (model w) t_prev @ state_vars_at (model w) t_prev) \<longrightarrow>
           (\<forall>v \<in> ?S. var_fixed (model ?w') v = var_fixed (model w) v)"
  proof (intro impI ballI)
    fix v assume dist: "distinct (get_derivatives_at (model w) t_prev @ state_vars_at (model w) t_prev)"
      and v: "v \<in> ?S"
    from prepare_element_snapshot[OF pe dist] v have "was_fixed v = Some (var_fixed (model w) v)" by blast
    with snap v show "var_fixed (model ?w') v = var_fixed (model w) v" by auto
  qed
  from A B show ?thesis by (rule conjI)
qed

text \<open>The first pass over the example flowsheet completes.\<close>

lemma example_step_done:
  "fst (element_step example_solver (\<lambda>m. 0) False [0, 1, 2] 1 2 example_locals 1 example_world) = Inr ()"
  by code_simp

text \<open>The pass over the example flowsheet, where no variable is listed twice.\<close>

lemma recorded_flags_restored_example:
  "fst (element_step example_solver (\<lambda>m. 0) False [0, 1, 2] 1 2 example_locals 1 example_world) = Inr () \<and>
   element_points [0, 1, 2 :: nat] 1 1 = Inr (0, [1]) \<and>
   distinct (get_derivatives_at (model example_world) (0::nat) @ state_vars_at (model example_world) 0) \<and>
   var_fixed (model (snd (element_step example_solver (\<lambda>m. 0) False [0, 1, 2] 1 2 example_locals 1 example_world)))
      (''x'', Some 0) = var_fixed (model example_world) (''x'', Some 0) \<and>
   var_fixed (model (snd (element_step example_solver (\<lambda>m. 0) False [0, 1, 2] 1 2 example_locals 1 example_world)))
      (''dxdt'', Some 0) = var_fixed (model example_world) (''dxdt'', Some 0)"
proof -
  have p: "element_points [0, 1, 2 :: nat] 1 1 = Inr (0, [1])"
    by (simp add: element_points_def time_at_def)
  have d: "distinct (get_derivatives_at (model example_world) (0::nat) @ state_vars_at (model example_world) 0)"
    by (simp add: get_derivatives_at_def state_vars_at_def example_world_def example_flowsheet_def)
  have s: "(''x'', Some 0) \<in> set (get_derivatives_at (model example_world) (0::nat)) \<union> set (state_vars_at (model example_world) 0)"
    "(''dxdt'', Some 0) \<in> set (get_derivatives_at (model example_world) (0::nat)) \<union> set (state_vars_at (model example_world) 0)"
    by (simp_all add: get_derivatives_at_def state_vars_at_def example_world_def example_flowsheet_def)
  from recorded_flags_restored[OF example_step_done p, THEN conjunct2] d s p example_step_done
  show ?thesis by blast
qed

text \<open>
  The same pass and the whole run over the flowsheet where \<open>x\<close> has two derivatives.
\<close>

lemma second_order_listing:
  "state_vars_at second_order_flowsheet 0 = [(''x'', Some 0), (''x'', Some 0)]"
  by (simp add: second_order_flowsheet_def state_vars_at_def)

lemma second_order_entry_flags:
  "\<not> var_fixed second_order_flowsheet (''x'', Some 0)"
  "\<not> var_fixed second_order_flowsheet (''x'', Some 1)"
  by (simp_all add: second_order_flowsheet_def example_flowsheet_def)

lemma second_order_record:
  "fst (fix_initial_conditions (get_derivatives_at second_order_flowsheet 0)
          (state_vars_at second_order_flowsheet 0) second_order_flowsheet) (''x'', Some 0) = Some True"
  by (simp add: second_order_flowsheet_def example_flowsheet_def fix_initial_conditions_def
      get_derivatives_at_def state_vars_at_def record_and_fix_deriv_def record_and_fix_dvar_def fix_var_def)

lemma second_order_step_done:
  "fst (element_step example_solver (\<lambda>m. 0) False [0, 1, 2] 1 2 example_locals 1 second_order_world) = Inr ()"
  by code_simp

lemma second_order_step_flag:
  "var_fixed (model (snd (element_step example_solver (\<lambda>m. 0) False [0, 1, 2] 1 2 example_locals 1
      second_order_world))) (''x'', Some 0)"
  by code_simp

lemma second_order_run_done:
  "fst (initialize_by_time_element example_solver (\<lambda>m. 0) False FlowsheetBlock
          (ContinuousSet example_time) second_order_flowsheet) = Inr ()"
  by code_simp

lemma second_order_run_flags:
  "var_fixed (model (snd (initialize_by_time_element example_solver (\<lambda>m. 0) False FlowsheetBlock
          (ContinuousSet example_time) second_order_flowsheet))) (''x'', Some 0)"
  "var_fixed (model (snd (initialize_by_time_element example_solver (\<lambda>m. 0) False FlowsheetBlock
          (ContinuousSet example_time) second_order_flowsheet))) (''x'', Some 1)"
  by code_simp+

text \<open>
  C8: after the pass for a finite element, every derivative and every state variable at
  the element's initial point that was not fixed on entry should be unfixed again (the
  comments at lines 320, 350 and 393). The code does not do so for a state variable with
  two time derivatives. Such a variable is listed twice in \<^verbatim>\<open>init_dvar_list\<close>, and
  \<^verbatim>\<open>was_originally_fixed\<close> has one entry for it: line 361 writes the entry a second time
  after line 363 has fixed the variable, so the entry is \<open>True\<close> and the unfixing loop
  (lines 397--399) passes the variable by. In the flowsheet below \<open>x\<close> has the derivatives
  \<open>dxdt\<close> and \<open>d2xdt2\<close> and is not fixed at any point; the record made at point 0 holds
  \<open>True\<close> for \<open>x\<close>, the first pass completes and leaves \<open>x\<close> fixed at point 0, and the whole
  run succeeds and leaves \<open>x\<close> fixed at the points 0 and 1.
\<close>

theorem state_listed_twice_stays_fixed:
  "state_vars_at second_order_flowsheet 0 = [(''x'', Some 0), (''x'', Some 0)] \<and>
   \<not> var_fixed second_order_flowsheet (''x'', Some 0) \<and>
   \<not> var_fixed second_order_flowsheet (''x'', Some 1) \<and>
   fst (fix_initial_conditions (get_derivatives_at second_order_flowsheet 0)
          (state_vars_at second_order_flowsheet 0) second_order_flowsheet) (''x'', Some 0) = Some True \<and>
   fst (element_step example_solver (\<lambda>m. 0) False [0, 1, 2] 1 2 example_locals 1 second_order_world) = Inr () \<and>
   var_fixed (model (snd (element_step example_solver (\<lambda>m. 0) False [0, 1, 2] 1 2 example_locals 1
      second_order_world))) (''x'', Some 0) \<and>
   fst (initialize_by_time_element example_solver (\<lambda>m. 0) False FlowsheetBlock
          (ContinuousSet example_time) second_order_flowsheet) = Inr () \<and>
   var_fixed (model (snd (initialize_by_time_element example_solver (\<lambda>m. 0) False FlowsheetBlock
          (ContinuousSet example_time) second_order_flowsheet))) (''x'', Some 0) \<and>
   var_fixed (model (snd (initialize_by_time_element example_solver (\<lambda>m. 0) False FlowsheetBlock
          (ContinuousSet example_time) second_order_flowsheet))) (''x'', Some 1)"
  by (intro conjI second_order_listing second_order_entry_flags second_order_record
      second_order_step_done second_order_step_flag second_order_run_done second_order_run_flags)


subsection \<open>The fixing step at the initial point of an element\<close>

text \<open>
  C1: the fixing step should fix a derivative or a state variable only if that
  variable's own value is not \<^verbatim>\<open>None\<close>. The code does so for the derivatives, but the test
  of the second loop (line 362) reads \<^verbatim>\<open>drv.value\<close>, the value of the last derivative,
  and not \<^verbatim>\<open>dv.value\<close>. In the flowsheet below the state \<open>x\<close> at point 0 has no value and
  is not fixed, its derivative has the value 1, and the fixing step fixes \<open>x\<close>.
\<close>

theorem state_variable_fixed_without_value:
  "var_value unsolved_state_flowsheet (''x'', Some 0) = None \<and>
   \<not> var_fixed unsolved_state_flowsheet (''x'', Some 0) \<and>
   var_fixed (snd (fix_initial_conditions
       (get_derivatives_at unsolved_state_flowsheet 0)
       (state_vars_at unsolved_state_flowsheet 0) unsolved_state_flowsheet)) (''x'', Some 0)"
  by (simp add: unsolved_state_flowsheet_def example_flowsheet_def fix_initial_conditions_def
      get_derivatives_at_def state_vars_at_def record_and_fix_deriv_def record_and_fix_dvar_def fix_var_def)


subsection \<open>Rejected discretization schemes\<close>

text \<open>
  C4: for a time set whose scheme is neither Lagrange-Radau nor backward difference
  the function raises before anything else happens: the outcome is the exception of the
  scheme (one for Lagrange-Legendre, one for forward difference, one for central
  difference, one for any other scheme, the four pairwise distinct), the flowsheet is
  the one passed in, with every \<^verbatim>\<open>active\<close> flag, \<^verbatim>\<open>fixed\<close> flag and value unchanged,
  the solver was not called, and nothing was logged.
\<close>

theorem unsupported_scheme_rejected:
  assumes "discretization_info cs = Some info"
    and "di_scheme info \<noteq> ''LAGRANGE-RADAU''" and "di_scheme info \<noteq> ''BACKWARD Difference''"
  shows "initialize_by_time_element solver dof ignore_dof FlowsheetBlock (ContinuousSet cs) m =
           (Inl (if di_scheme info = ''LAGRANGE-LEGENDRE'' then
                   NotImplementedError ''Initialization does not support collocation with Legendre roots''
                 else if di_scheme info = ''FORWARD Difference'' then
                   NotImplementedError ''Forward initialization (explicit Euler) has not yet been implemented''
                 else if di_scheme info = ''CENTRAL Difference'' then
                   NotImplementedError ''Initialization does not support central finite difference''
                 else ValueError ''Unrecognized discretization scheme. ''),
            \<lparr>model = m, solves = [], init_log = []\<rparr>) \<and>
         distinct [NotImplementedError ''Initialization does not support collocation with Legendre roots'',
                   NotImplementedError ''Forward initialization (explicit Euler) has not yet been implemented'',
                   NotImplementedError ''Initialization does not support central finite difference'',
                   ValueError ''Unrecognized discretization scheme. '']"
  using assms
  by (simp add: initialize_by_time_element_def check_arguments_def scheme_ncp_def)

text \<open>The instance for collocation at Legendre roots.\<close>

theorem unsupported_scheme_rejected_witness:
  "discretization_info legendre_time =
     Some \<lparr>di_scheme = ''LAGRANGE-LEGENDRE'', di_nfe = 1, di_ncp = Some 2\<rparr> \<and>
   ''LAGRANGE-LEGENDRE'' \<noteq> ''LAGRANGE-RADAU'' \<and> ''LAGRANGE-LEGENDRE'' \<noteq> ''BACKWARD Difference'' \<and>
   initialize_by_time_element example_solver (\<lambda>m. 0) False FlowsheetBlock (ContinuousSet legendre_time)
       example_flowsheet =
     (Inl (NotImplementedError ''Initialization does not support collocation with Legendre roots''),
      \<lparr>model = example_flowsheet, solves = [], init_log = []\<rparr>)"
  using unsupported_scheme_rejected[of legendre_time
      "\<lparr>di_scheme = ''LAGRANGE-LEGENDRE'', di_nfe = 1, di_ncp = Some 2\<rparr>"
      example_solver "\<lambda>m. 0" False example_flowsheet]
  by (simp add: legendre_time_def)


subsection \<open>What \<^verbatim>\<open>propagate_state\<close> leaves unchanged\<close>

text \<open>
  C10, as amended: \<^verbatim>\<open>propagate_state\<close> changes no \<^verbatim>\<open>fixed\<close> flag and never modifies a
  variable object that is fixed. The only objects it modifies are members of the port
  it writes to (the destination for \<^verbatim>\<open>'forward'\<close>, the source for \<^verbatim>\<open>'backward'\<close>), so a
  member of the port it reads from is left unchanged unless that same object is also a
  member of the port it writes to. For an Arc and any other direction it raises
  \<^verbatim>\<open>ValueError\<close> and leaves every object unchanged.
\<close>

theorem propagate_state_frame:
  "(\<forall>a. vd_fixed (snd (propagate_state stream direction h) a) = vd_fixed (h a)) \<and>
   (\<forall>a. vd_fixed (h a) \<longrightarrow> snd (propagate_state stream direction h) a = h a) \<and>
   (\<forall>source destination. stream = Arc source destination \<longrightarrow>
      (direction = ''forward'' \<longrightarrow>
         (\<forall>a. a \<notin> port_addresses destination \<longrightarrow> snd (propagate_state stream direction h) a = h a)) \<and>
      (direction = ''backward'' \<longrightarrow>
         (\<forall>a. a \<notin> port_addresses source \<longrightarrow> snd (propagate_state stream direction h) a = h a)) \<and>
      (direction \<noteq> ''forward'' \<and> direction \<noteq> ''backward'' \<longrightarrow>
         propagate_state stream direction h =
           (Inl (ValueError (''Unexpected value for direction argument: ('' @ direction @
                  ''). Value must be either 'forward' or 'backward'.'')), h)))"
proof (cases stream)
  case NotAnArc
  then show ?thesis by (simp add: propagate_state_def)
next
  case (Arc source destination)
  show ?thesis
  proof (cases "direction = ''forward''")
    case True
    obtain r h' where c: "copy_port source destination h = (r, h')"
      by (cases "copy_port source destination h")
    from copy_port_keeps[OF c] show ?thesis
      using Arc True c by (simp add: propagate_state_def)
  next
    case nf: False
    show ?thesis
    proof (cases "direction = ''backward''")
      case True
      obtain r h' where c: "copy_port destination source h = (r, h')"
        by (cases "copy_port destination source h")
      from copy_port_keeps[OF c] show ?thesis
        using Arc True nf c by (simp add: propagate_state_def)
    next
      case False
      with nf Arc show ?thesis by (simp add: propagate_state_def)
    qed
  qed
qed

text \<open>
  The instance for two ports over separate variables: the fixed temperature of the
  inlet is not overwritten, the outlet is untouched by a forward copy and the inlet by
  a backward one, and the direction \<^verbatim>\<open>'sideways'\<close> is refused.
\<close>

theorem propagate_state_frame_witness:
  "vd_fixed (example_heap 4) \<and>
   snd (propagate_state (Arc outlet_port inlet_port) ''forward'' example_heap) 4 = example_heap 4 \<and>
   1 \<notin> port_addresses inlet_port \<and>
   snd (propagate_state (Arc outlet_port inlet_port) ''forward'' example_heap) 1 = example_heap 1 \<and>
   3 \<notin> port_addresses outlet_port \<and>
   snd (propagate_state (Arc outlet_port inlet_port) ''backward'' example_heap) 3 = example_heap 3 \<and>
   ''sideways'' \<noteq> ''forward'' \<and> ''sideways'' \<noteq> ''backward'' \<and>
   propagate_state (Arc outlet_port inlet_port) ''sideways'' example_heap =
     (Inl (ValueError ''Unexpected value for direction argument: (sideways). Value must be either 'forward' or 'backward'.''),
      example_heap)"
proof -
  have a: "vd_fixed (example_heap 4)" by (simp add: example_heap_def)
  have b: "1 \<notin> port_addresses inlet_port" "3 \<notin> port_addresses outlet_port"
    by (simp_all add: port_addresses_def inlet_port_def outlet_port_def component_data_def)
  have c: "''sideways'' \<noteq> ''forward''" "''sideways'' \<noteq> ''backward''" by simp_all
  note f = propagate_state_frame[of "Arc outlet_port inlet_port" "''forward''" example_heap]
  note g = propagate_state_frame[of "Arc outlet_port inlet_port" "''backward''" example_heap]
  note s = propagate_state_frame[of "Arc outlet_port inlet_port" "''sideways''" example_heap]
  have 1: "snd (propagate_state (Arc outlet_port inlet_port) ''forward'' example_heap) 4 = example_heap 4"
    using f a by blast
  have 2: "snd (propagate_state (Arc outlet_port inlet_port) ''forward'' example_heap) 1 = example_heap 1"
    using f b(1) by blast
  have 3: "snd (propagate_state (Arc outlet_port inlet_port) ''backward'' example_heap) 3 = example_heap 3"
    using g b(2) by blast
  have 4: "propagate_state (Arc outlet_port inlet_port) ''sideways'' example_heap =
     (Inl (ValueError ''Unexpected value for direction argument: (sideways). Value must be either 'forward' or 'backward'.''),
      example_heap)"
    using s c by simp
  from a b c 1 2 3 4 show ?thesis by blast
qed

text \<open>
  C10 as stated fails when the two ports share variable objects: with the crossed ports
  the forward copy ends normally and has overwritten the object 2, which is the member
  \<open>b\<close> of the source port.
\<close>

theorem source_port_modified_counterexample:
  "2 \<in> port_addresses crossed_source \<and>
   fst (propagate_state (Arc crossed_source crossed_destination) ''forward'' unfixed_heap) = Inr () \<and>
   vd_value (unfixed_heap 2) = Some 2 \<and>
   vd_value (snd (propagate_state (Arc crossed_source crossed_destination) ''forward'' unfixed_heap) 2) = Some 1"
  by (simp add: propagate_state_def copy_port_def copy_index_def component_data_def
      port_addresses_def crossed_source_def crossed_destination_def unfixed_heap_def)


subsection \<open>A solve that does not terminate optimally\<close>

text \<open>
  C3, as amended: if the solve for finite element \<open>i\<close> does not terminate optimally,
  the run ends there with \<^verbatim>\<open>ValueError('Failure in initialization solve')\<close>. The
  exception names the stage by its message (the solve for consistent initial
  conditions raises another message) and carries no element index; the index is in the
  last line written to the error log, \<^verbatim>\<open>Failed to solve finite element i\<close>. No solve
  for an element \<open>j > i\<close> is made.
\<close>

theorem element_failure_stops_run:
  assumes "\<exists>mi. (Element i, mi) \<in> set (solves (snd (initialize_by_time_element solver dof ignore_dof fs time m))) \<and>
             fst (solver mi) \<noteq> optimal"
  shows "fst (initialize_by_time_element solver dof ignore_dof fs time m) =
           Inl (ValueError ''Failure in initialization solve'') \<and>
         init_log (snd (initialize_by_time_element solver dof ignore_dof fs time m)) \<noteq> [] \<and>
         last (init_log (snd (initialize_by_time_element solver dof ignore_dof fs time m))) =
           LogError (''Failed to solve finite element '' @ str_nat i) \<and>
         (\<forall>j mj. (Element j, mj) \<in> set (solves (snd (initialize_by_time_element solver dof ignore_dof fs time m))) \<longrightarrow>
            j \<le> i)"
proof -
  let ?run = "initialize_by_time_element solver dof ignore_dof fs time m"
  from assms obtain mi where mi: "(Element i, mi) \<in> set (solves (snd ?run))" "fst (solver mi) \<noteq> optimal"
    by blast
  from initialize_solves[of solver dof ignore_dof fs time m] mi(1) obtain m1 new where
    s: "solves (snd ?run) = (ConsistentIC, m1) # new"
    and b: "\<forall>i mi. (Element i, mi) \<in> set new \<and> fst (solver mi) \<noteq> optimal \<longrightarrow>
          fst ?run = Inl element_solve_error \<and> init_log (snd ?run) \<noteq> [] \<and>
          last (init_log (snd ?run)) = LogError (failed_message i) \<and>
          (\<forall>j mj. (Element j, mj) \<in> set new \<longrightarrow> j \<le> i)"
    by auto
  from mi(1) s have "(Element i, mi) \<in> set new" by simp
  with b mi(2) have "fst ?run = Inl element_solve_error \<and> init_log (snd ?run) \<noteq> [] \<and>
          last (init_log (snd ?run)) = LogError (failed_message i) \<and>
          (\<forall>j mj. (Element j, mj) \<in> set new \<longrightarrow> j \<le> i)" by blast
  then show ?thesis
    by (simp add: s element_solve_error_def failed_message_def)
qed

text \<open>
  The run over six points with a solver that fails at element 3 of 5: the exception,
  the solver calls made, and the failing call.
\<close>

lemma long_run_fails_at_three:
  "case initialize_by_time_element (failing_solver 3) (\<lambda>m. 0) False FlowsheetBlock
          (ContinuousSet long_time) long_flowsheet of
     (r, w) \<Rightarrow>
       r = Inl (ValueError ''Failure in initialization solve'') \<and>
       map fst (solves w) = [ConsistentIC, Element 1, Element 2, Element 3] \<and>
       list_ex (\<lambda>p. fst p = Element 3 \<and> fst (failing_solver 3 (snd p)) \<noteq> optimal) (solves w)"
  by code_simp

theorem element_failure_stops_run_witness:
  "(\<exists>mi. (Element 3, mi) \<in> set (solves (snd (initialize_by_time_element (failing_solver 3) (\<lambda>m. 0) False
             FlowsheetBlock (ContinuousSet long_time) long_flowsheet))) \<and>
          fst (failing_solver 3 mi) \<noteq> optimal) \<and>
   fst (initialize_by_time_element (failing_solver 3) (\<lambda>m. 0) False FlowsheetBlock
          (ContinuousSet long_time) long_flowsheet) = Inl (ValueError ''Failure in initialization solve'') \<and>
   last (init_log (snd (initialize_by_time_element (failing_solver 3) (\<lambda>m. 0) False FlowsheetBlock
          (ContinuousSet long_time) long_flowsheet))) = LogError ''Failed to solve finite element 3''"
proof -
  let ?run = "initialize_by_time_element (failing_solver 3) (\<lambda>m. 0) False FlowsheetBlock
          (ContinuousSet long_time) long_flowsheet"
  have "list_ex (\<lambda>p. fst p = Element 3 \<and> fst (failing_solver 3 (snd p)) \<noteq> optimal) (solves (snd ?run))"
    using long_run_fails_at_three by (simp add: case_prod_beta)
  then have h: "\<exists>mi. (Element 3, mi) \<in> set (solves (snd ?run)) \<and> fst (failing_solver 3 mi) \<noteq> optimal"
    by (force simp: list_ex_iff)
  have "str_nat 3 = ''3''" by (simp add: str_nat.simps)
  with element_failure_stops_run[OF h] h show ?thesis by simp
qed

text \<open>
  C3 as stated fails: the exception raised for the failure at element 3 of 5 is the
  plain \<^verbatim>\<open>ValueError('Failure in initialization solve')\<close>, with no stage field and no
  index 3 in it.
\<close>

theorem solve_error_without_index_counterexample:
  "fst (initialize_by_time_element (failing_solver 3) (\<lambda>m. 0) False FlowsheetBlock
          (ContinuousSet long_time) long_flowsheet) = Inl (ValueError ''Failure in initialization solve'') \<and>
   map fst (solves (snd (initialize_by_time_element (failing_solver 3) (\<lambda>m. 0) False FlowsheetBlock
          (ContinuousSet long_time) long_flowsheet))) = [ConsistentIC, Element 1, Element 2, Element 3]"
  using long_run_fails_at_three by (simp add: case_prod_beta)


subsection \<open>The degrees-of-freedom checks\<close>

text \<open>
  C6: when \<^verbatim>\<open>ignore_dof\<close> is false, a flowsheet with nonzero degrees of freedom on entry
  makes the run fail with \<^verbatim>\<open>ValueError('Nonzero degrees of freedom.')\<close> before the solver
  is called and before the flowsheet is changed; a pass of the loop whose prepared
  flowsheet has nonzero degrees of freedom fails with
  \<^verbatim>\<open>ValueError('Nonzero degrees of freedom')\<close> without calling the solver; so the solver
  is called only if the flowsheet on entry had zero degrees of freedom, and for an
  element only on a flowsheet with zero degrees of freedom. When \<^verbatim>\<open>ignore_dof\<close> is true,
  neither exception is ever the outcome and the run does not depend on the
  degrees-of-freedom function at all.
\<close>

theorem degrees_of_freedom_gate:
  "(\<forall>pts nfe ncp. check_arguments fs time = Inr (pts, nfe, ncp) \<and> \<not> ignore_dof \<and> dof m \<noteq> 0 \<longrightarrow>
      initialize_by_time_element solver dof ignore_dof fs time m =
        (Inl (ValueError ''Nonzero degrees of freedom.''),
         \<lparr>model = m, solves = [], init_log = [LogError dof_message]\<rparr>)) \<and>
   (\<forall>pts ncp nfe loc i (w :: 't world) t_prev fe was_fixed m2.
      element_points pts ncp i = Inr (t_prev, fe) \<and>
      prepare_element loc t_prev fe (model w) = (Inr was_fixed, m2) \<and> \<not> ignore_dof \<and> dof m2 \<noteq> 0 \<longrightarrow>
      fst (element_step solver dof ignore_dof pts ncp nfe loc i w) =
        Inl (ValueError ''Nonzero degrees of freedom'') \<and>
      solves (snd (element_step solver dof ignore_dof pts ncp nfe loc i w)) = solves w) \<and>
   (\<not> ignore_dof \<longrightarrow>
      (solves (snd (initialize_by_time_element solver dof ignore_dof fs time m)) \<noteq> [] \<longrightarrow> dof m = 0) \<and>
      (\<forall>i mi. (Element i, mi) \<in> set (solves (snd (initialize_by_time_element solver dof ignore_dof fs time m))) \<longrightarrow>
         dof mi = 0)) \<and>
   (ignore_dof \<longrightarrow>
      fst (initialize_by_time_element solver dof ignore_dof fs time m) \<noteq>
        Inl (ValueError ''Nonzero degrees of freedom.'') \<and>
      fst (initialize_by_time_element solver dof ignore_dof fs time m) \<noteq>
        Inl (ValueError ''Nonzero degrees of freedom'') \<and>
      (\<forall>dof'. initialize_by_time_element solver dof' ignore_dof fs time m =
               initialize_by_time_element solver dof ignore_dof fs time m))"
proof (intro conjI allI impI)
  fix pts nfe ncp
  assume "check_arguments fs time = Inr (pts, nfe, ncp) \<and> \<not> ignore_dof \<and> dof m \<noteq> 0"
  then show "initialize_by_time_element solver dof ignore_dof fs time m =
        (Inl (ValueError ''Nonzero degrees of freedom.''),
         \<lparr>model = m, solves = [], init_log = [LogError dof_message]\<rparr>)"
    by (simp add: initialize_by_time_element_def solve_initial_conditions_def initial_dof_error_def
        log_error_def)
next
  fix pts ncp nfe loc i and w :: "'t world" and t_prev fe was_fixed m2
  assume h: "element_points pts ncp i = Inr (t_prev, fe) \<and>
      prepare_element loc t_prev fe (model w) = (Inr was_fixed, m2) \<and> \<not> ignore_dof \<and> dof m2 \<noteq> 0"
  then show "fst (element_step solver dof ignore_dof pts ncp nfe loc i w) =
        Inl (ValueError ''Nonzero degrees of freedom'')"
    using element_step_dof_gate(1)[of pts ncp i t_prev fe loc w was_fixed m2 ignore_dof dof solver nfe]
    by (simp add: element_dof_error_def)
  from h show "solves (snd (element_step solver dof ignore_dof pts ncp nfe loc i w)) = solves w"
    using element_step_dof_gate(2)[of pts ncp i t_prev fe loc w was_fixed m2 ignore_dof dof solver nfe]
    by simp
next
  assume n: "\<not> ignore_dof"
  assume "solves (snd (initialize_by_time_element solver dof ignore_dof fs time m)) \<noteq> []"
  with initialize_solves[of solver dof ignore_dof fs time m] n show "dof m = 0" by auto
next
  fix i mi
  assume n: "\<not> ignore_dof"
  assume "(Element i, mi) \<in> set (solves (snd (initialize_by_time_element solver dof ignore_dof fs time m)))"
  with initialize_solves[of solver dof ignore_dof fs time m] n show "dof mi = 0" by auto
next
  assume i: ignore_dof
  have "fst (initialize_by_time_element solver dof ignore_dof fs time m) \<noteq> Inl initial_dof_error \<and>
        fst (initialize_by_time_element solver dof ignore_dof fs time m) \<noteq> Inl element_dof_error"
  proof (cases rule: initialize_cases[of fs time solver dof ignore_dof m])
    case (arguments e)
    with check_arguments_error[OF arguments(1)] show ?thesis by simp
  next
    case (preparation pts nfe ncp e w1)
    from solve_initial_conditions_cases[OF preparation(2)] i preparation(3) show ?thesis
      by (auto simp: error_distinct[symmetric])
  next
    case (loop pts nfe ncp loc w1 e w2)
    from element_loop_solves[OF loop(3) sorted_element_indices] i loop(4) show ?thesis
      by (auto simp: error_distinct[symmetric])
  next
    case (restore pts nfe ncp loc w1 w2)
    obtain r3 w3 where s3: "restore_model pts loc w2 = (r3, w3)" by (cases "restore_model pts loc w2")
    from restore_model_cases(2)[OF s3] restore(4) s3 show ?thesis
      by (auto simp: error_distinct[symmetric])
  qed
  then show "fst (initialize_by_time_element solver dof ignore_dof fs time m) \<noteq>
        Inl (ValueError ''Nonzero degrees of freedom.'')"
    and "fst (initialize_by_time_element solver dof ignore_dof fs time m) \<noteq>
        Inl (ValueError ''Nonzero degrees of freedom'')"
    by (simp_all add: initial_dof_error_def element_dof_error_def)
  fix dof'
  from i show "initialize_by_time_element solver dof' ignore_dof fs time m =
               initialize_by_time_element solver dof ignore_dof fs time m"
    using ignore_dof_independent[of solver dof' fs time m dof] by simp
qed

text \<open>The instance for the example flowsheet with a degrees-of-freedom count of 1.\<close>

lemma example_arguments:
  "check_arguments FlowsheetBlock (ContinuousSet example_time) = Inr ([0, 1, 2], 2, 1)"
  by (simp add: check_arguments_def scheme_ncp_def example_time_def)

theorem degrees_of_freedom_gate_witness:
  "check_arguments FlowsheetBlock (ContinuousSet example_time) = Inr ([0, 1, 2], 2, 1) \<and>
   initialize_by_time_element example_solver (\<lambda>m. 1) False FlowsheetBlock (ContinuousSet example_time)
       example_flowsheet =
     (Inl (ValueError ''Nonzero degrees of freedom.''),
      \<lparr>model = example_flowsheet, solves = [], init_log = [LogError dof_message]\<rparr>) \<and>
   fst (initialize_by_time_element example_solver (\<lambda>m. 1) True FlowsheetBlock (ContinuousSet example_time)
       example_flowsheet) \<noteq> Inl (ValueError ''Nonzero degrees of freedom.'') \<and>
   initialize_by_time_element example_solver (\<lambda>m. 1) True FlowsheetBlock (ContinuousSet example_time)
       example_flowsheet =
   initialize_by_time_element example_solver (\<lambda>m. 0) True FlowsheetBlock (ContinuousSet example_time)
       example_flowsheet"
proof -
  note f = degrees_of_freedom_gate[of FlowsheetBlock "ContinuousSet example_time" False "\<lambda>m. 1"
      example_flowsheet example_solver]
  note t = degrees_of_freedom_gate[of FlowsheetBlock "ContinuousSet example_time" True "\<lambda>m. 0"
      example_flowsheet example_solver]
  have 1: "initialize_by_time_element example_solver (\<lambda>m. 1) False FlowsheetBlock (ContinuousSet example_time)
       example_flowsheet =
     (Inl (ValueError ''Nonzero degrees of freedom.''),
      \<lparr>model = example_flowsheet, solves = [], init_log = [LogError dof_message]\<rparr>)"
    using f example_arguments by simp
  have 2: "initialize_by_time_element example_solver (\<lambda>m. 1) True FlowsheetBlock (ContinuousSet example_time)
       example_flowsheet =
   initialize_by_time_element example_solver (\<lambda>m. 0) True FlowsheetBlock (ContinuousSet example_time)
       example_flowsheet"
    using t by simp
  have 3: "fst (initialize_by_time_element example_solver (\<lambda>m. 0) True FlowsheetBlock (ContinuousSet example_time)
       example_flowsheet) \<noteq> Inl (ValueError ''Nonzero degrees of freedom.'')"
    using t by simp
  from 1 2 3 example_arguments show ?thesis by simp
qed


subsection \<open>The components not indexed by time\<close>

text \<open>
  C7: the constraints returned by \<^verbatim>\<open>deactivate_constraints_unindexed_by\<close> and the
  variables returned by \<^verbatim>\<open>fix_vars_unindexed_by\<close> stay deactivated and fixed through the
  loop: after any sequence \<open>ks\<close> of passes, whether the last one completed or raised,
  every returned constraint is inactive and every returned variable is fixed, and the
  same holds in every flowsheet handed to the solver for an element. They are restored
  by the statements after the loop: when these complete, every returned constraint is
  active and every returned variable is unfixed.
\<close>

theorem unindexed_components_held:
  assumes "fst (solve_initial_conditions solver dof ignore_dof time w0) = Inr loc"
  shows "(\<forall>c \<in> set (con_unindexed_by_time loc).
            \<not> con_active (model (snd (for_each (element_step solver dof ignore_dof time ncp nfe loc) ks
                 (snd (solve_initial_conditions solver dof ignore_dof time w0))))) c) \<and>
         (\<forall>v \<in> set (var_unindexed_by_time loc).
            var_fixed (model (snd (for_each (element_step solver dof ignore_dof time ncp nfe loc) ks
                 (snd (solve_initial_conditions solver dof ignore_dof time w0))))) v) \<and>
         (\<forall>j ms. (Element j, ms) \<in> set (solves (snd (for_each (element_step solver dof ignore_dof time ncp nfe loc) ks
                 (snd (solve_initial_conditions solver dof ignore_dof time w0))))) \<and>
                 (Element j, ms) \<notin> set (solves w0) \<longrightarrow>
            (\<forall>c \<in> set (con_unindexed_by_time loc). \<not> con_active ms c) \<and>
            (\<forall>v \<in> set (var_unindexed_by_time loc). var_fixed ms v)) \<and>
         (fst (restore_model time loc (snd (for_each (element_step solver dof ignore_dof time ncp nfe loc) ks
                 (snd (solve_initial_conditions solver dof ignore_dof time w0))))) = Inr () \<longrightarrow>
            (\<forall>c \<in> set (con_unindexed_by_time loc).
               con_active (model (snd (restore_model time loc (snd (for_each (element_step solver dof ignore_dof time ncp nfe loc) ks
                 (snd (solve_initial_conditions solver dof ignore_dof time w0))))))) c) \<and>
            (\<forall>v \<in> set (var_unindexed_by_time loc).
               \<not> var_fixed (model (snd (restore_model time loc (snd (for_each (element_step solver dof ignore_dof time ncp nfe loc) ks
                 (snd (solve_initial_conditions solver dof ignore_dof time w0))))))) v))"
proof -
  let ?W1 = "snd (solve_initial_conditions solver dof ignore_dof time w0)"
  let ?W2 = "snd (for_each (element_step solver dof ignore_dof time ncp nfe loc) ks ?W1)"
  let ?W3 = "snd (restore_model time loc ?W2)"
  have ic: "solve_initial_conditions solver dof ignore_dof time w0 = (Inr loc, ?W1)"
    using assms by (cases "solve_initial_conditions solver dof ignore_dof time w0") simp
  note b = solve_initial_conditions_done[OF ic]
  have H: "\<forall>t cs c. deactivated loc t = Some cs \<and> c \<in> set cs \<longrightarrow> snd c \<noteq> None"
    by (auto simp: b(2) constraints_at_def split: if_splits)
  have loop: "for_each (element_step solver dof ignore_dof time ncp nfe loc) ks ?W1 =
      (fst (for_each (element_step solver dof ignore_dof time ncp nfe loc) ks ?W1), ?W2)"
    by simp
  note I = element_loop_unindexed[OF loop H]
  note I1 = I[THEN conjunct1, rule_format]
  note I2 = I[THEN conjunct2, THEN conjunct1, rule_format]
  note I3 = I[THEN conjunct2, THEN conjunct2, rule_format]
  have con: "snd c = None \<and> \<not> con_active (model ?W1) c" if "c \<in> set (con_unindexed_by_time loc)" for c
    using that by (simp add: b(3) b(5))
  have var: "snd v = None \<and> var_fixed (model ?W1) v" if "v \<in> set (var_unindexed_by_time loc)" for v
    using that by (simp add: b(4) b(6))
  have 1: "\<forall>c \<in> set (con_unindexed_by_time loc). \<not> con_active (model ?W2) c"
  proof
    fix c assume "c \<in> set (con_unindexed_by_time loc)"
    from con[OF this] I1[where c = c] show "\<not> con_active (model ?W2) c" by simp
  qed
  have 2: "\<forall>v \<in> set (var_unindexed_by_time loc). var_fixed (model ?W2) v"
  proof
    fix v assume "v \<in> set (var_unindexed_by_time loc)"
    from var[OF this] I2[where v = v] show "var_fixed (model ?W2) v" by simp
  qed
  have 3: "\<forall>j ms. (Element j, ms) \<in> set (solves ?W2) \<and> (Element j, ms) \<notin> set (solves w0) \<longrightarrow>
            (\<forall>c \<in> set (con_unindexed_by_time loc). \<not> con_active ms c) \<and>
            (\<forall>v \<in> set (var_unindexed_by_time loc). var_fixed ms v)"
  proof (intro allI impI)
    fix j ms assume h: "(Element j, ms) \<in> set (solves ?W2) \<and> (Element j, ms) \<notin> set (solves w0)"
    from b(10) h have "(Element j, ms) \<notin> set (solves ?W1)" by auto
    with I3[where st = "Element j" and ms = ms] h have K:
      "(\<forall>c. snd c = None \<longrightarrow> con_active ms c = con_active (model ?W1) c) \<and>
       (\<forall>v. snd v = None \<longrightarrow> var_fixed ms v = var_fixed (model ?W1) v)" by blast
    note K1 = K[THEN conjunct1, rule_format]
    note K2 = K[THEN conjunct2, rule_format]
    show "(\<forall>c \<in> set (con_unindexed_by_time loc). \<not> con_active ms c) \<and>
          (\<forall>v \<in> set (var_unindexed_by_time loc). var_fixed ms v)"
    proof (intro conjI ballI)
      fix c assume "c \<in> set (con_unindexed_by_time loc)"
      from con[OF this] K1[where c = c] show "\<not> con_active ms c" by simp
    next
      fix v assume "v \<in> set (var_unindexed_by_time loc)"
      from var[OF this] K2[where v = v] show "var_fixed ms v" by simp
    qed
  qed
  have 4: "fst (restore_model time loc ?W2) = Inr () \<longrightarrow>
            (\<forall>c \<in> set (con_unindexed_by_time loc). con_active (model ?W3) c) \<and>
            (\<forall>v \<in> set (var_unindexed_by_time loc). \<not> var_fixed (model ?W3) v)"
  proof
    assume "fst (restore_model time loc ?W2) = Inr ()"
    then have "restore_model time loc ?W2 = (Inr (), ?W3)"
      by (cases "restore_model time loc ?W2") simp
    note d = restore_model_done(1)[OF this]
    show "(\<forall>c \<in> set (con_unindexed_by_time loc). con_active (model ?W3) c) \<and>
            (\<forall>v \<in> set (var_unindexed_by_time loc). \<not> var_fixed (model ?W3) v)"
      by (subst d, subst d) simp
  qed
  from 1 2 3 4 show ?thesis by (intro conjI)
qed

text \<open>
  The instance for the example flowsheet: the preparation returns the constraint \<open>g\<close>
  and the variable \<open>p\<close>, and after the two passes \<open>g\<close> is inactive and \<open>p\<close> is fixed.
\<close>

lemma example_preparation:
  "fst (solve_initial_conditions example_solver (\<lambda>m. 0) False [0, 1, 2] example_world) = Inr prepared_locals"
proof -
  let ?s = "solve_initial_conditions example_solver (\<lambda>m. 0) False [0, 1, 2] example_world"
  have "case fst ?s of Inl e \<Rightarrow> False | Inr loc \<Rightarrow> True" by code_simp
  then obtain loc where loc: "fst ?s = Inr loc" by (cases "fst ?s") auto
  then have ic: "?s = (Inr loc, snd ?s)" by (cases ?s) simp
  note b = solve_initial_conditions_done[OF ic]
  have m: "model example_world = example_flowsheet" by (simp add: example_world_def)
  have "was_originally_active loc = was_originally_active prepared_locals"
    by (simp add: b(1) m prepared_locals_def)
  moreover have "deactivated loc = deactivated prepared_locals"
    by (intro ext) (simp add: b(2) m prepared_locals_def)
  moreover have "con_unindexed_by_time loc = con_unindexed_by_time prepared_locals"
    by (simp add: b(3) m prepared_locals_def example_flowsheet_def)
  moreover have "var_unindexed_by_time loc = var_unindexed_by_time prepared_locals"
    by (simp add: b(4) m prepared_locals_def example_flowsheet_def)
  ultimately have "loc = prepared_locals" by simp
  with loc show ?thesis by simp
qed

theorem unindexed_components_held_witness:
  "fst (solve_initial_conditions example_solver (\<lambda>m. 0) False [0, 1, 2] example_world) = Inr prepared_locals \<and>
   (''g'', None) \<in> set (con_unindexed_by_time prepared_locals) \<and>
   \<not> con_active (model (snd (for_each (element_step example_solver (\<lambda>m. 0) False [0, 1, 2] 1 2 prepared_locals) [1, 2]
        (snd (solve_initial_conditions example_solver (\<lambda>m. 0) False [0, 1, 2] example_world))))) (''g'', None) \<and>
   (''p'', None) \<in> set (var_unindexed_by_time prepared_locals) \<and>
   var_fixed (model (snd (for_each (element_step example_solver (\<lambda>m. 0) False [0, 1, 2] 1 2 prepared_locals) [1, 2]
        (snd (solve_initial_conditions example_solver (\<lambda>m. 0) False [0, 1, 2] example_world))))) (''p'', None)"
proof -
  have g: "(''g'', None) \<in> set (con_unindexed_by_time prepared_locals)"
    and p: "(''p'', None) \<in> set (var_unindexed_by_time prepared_locals)"
    by (simp_all add: prepared_locals_def)
  note t = unindexed_components_held[OF example_preparation, of 1 2 "[1, 2]"]
  from t g have 1: "\<not> con_active (model (snd (for_each (element_step example_solver (\<lambda>m. 0) False [0, 1, 2] 1 2 prepared_locals) [1, 2]
        (snd (solve_initial_conditions example_solver (\<lambda>m. 0) False [0, 1, 2] example_world))))) (''g'', None)"
    by blast
  from t p have 2: "var_fixed (model (snd (for_each (element_step example_solver (\<lambda>m. 0) False [0, 1, 2] 1 2 prepared_locals) [1, 2]
        (snd (solve_initial_conditions example_solver (\<lambda>m. 0) False [0, 1, 2] example_world))))) (''p'', None)"
    by blast
  from example_preparation g p 1 2 show ?thesis by blast
qed

end
